theory Spec2Isabelle
  imports
    Complex_Main
    "HOL-Library.AList"
    "HOL-Library.Char_ord"
    "HOL-Library.List_Lexorder"
    "HOL-Library.Multiset"
begin

section \<open>PhyloCNV: read reassignment, coverage normalisation and consensus calling\<close>

text \<open>
  A shallow embedding of \<^verbatim>\<open>src/phylo_cnv/phylo_cnv.py\<close> (Python 2).
  Python integers are \<open>int\<close>. A finite float is the rational it stands for
  (\<open>rat\<close>), and the rounding of the float format is a parameter \<open>rnd\<close> of every
  function that computes with floats: an integer converted to a float is
  \<open>rnd (of_int n)\<close>, and an operation on floats is the exact operation followed by
  \<open>rnd\<close>. For IEEE binary64 the parameter is \<open>round_double\<close> below. The abundances
  of the genome clusters and the probabilities \<^verbatim>\<open>resolve_ties\<close> computes from them
  are kept exact. Where a NumPy value can be
  \<^verbatim>\<open>nan\<close> or \<^verbatim>\<open>inf\<close> without an exception, the type \<open>npfloat\<close> below
  carries these values explicitly. A Python \<^verbatim>\<open>dict\<close> is an association list with
  distinct keys, read with \<open>map_of\<close> and written with \<open>AList.update\<close>; the list
  order stands for the dict's iteration order. Every exception the modelled code can
  raise is a value of type \<open>error\<close>.
\<close>

subsection \<open>Exceptions\<close>

datatype error = KeyError | IndexError | ZeroDivisionError | ValueError

definition try_bind :: "error + 'a \<Rightarrow> ('a \<Rightarrow> error + 'b) \<Rightarrow> error + 'b" where
  "try_bind m f = (case m of Inl e \<Rightarrow> Inl e | Inr x \<Rightarrow> f x)"

text \<open>\<^verbatim>\<open>xs[i]\<close> for a non-negative index: \<^verbatim>\<open>IndexError\<close> out of range.\<close>

definition item :: "'a list \<Rightarrow> nat \<Rightarrow> error + 'a" where
  "item xs i = (if i < length xs then Inr (xs ! i) else Inl IndexError)"

text \<open>\<^verbatim>\<open>d[k]\<close> on a dict: \<^verbatim>\<open>KeyError\<close> for a missing key.\<close>

definition getitem :: "('k \<times> 'v) list \<Rightarrow> 'k \<Rightarrow> error + 'v" where
  "getitem d k = (case map_of d k of None \<Rightarrow> Inl KeyError | Some v \<Rightarrow> Inr v)"

subsection \<open>Alignment records\<close>

text \<open>
  The attributes of a pysam alignment record that the code reads. \<open>tags\<close> is the
  record's list of optional fields; the code reads the edit distance as
  \<^verbatim>\<open>dict(aln.tags)['NM']\<close>, so a later duplicate of a tag wins.
\<close>

record aligned_segment =
  query_name :: string
  is_paired :: bool
  mate_is_unmapped :: bool
  is_read1 :: bool
  is_read2 :: bool
  reference_id :: int
  query_length :: int
  tags :: "(string \<times> int) list"

definition tag_NM :: "aligned_segment \<Rightarrow> error + int" where
  "tag_NM a = getitem (rev (tags a)) ''NM''"

subsection \<open>Scores and percent identity\<close>

definition compute_aln_score :: "aligned_segment list \<Rightarrow> error + int" where
  "compute_aln_score pe_read =
     try_bind (item pe_read 0) (\<lambda>r0.
       if \<not> is_paired r0 then
         try_bind (tag_NM r0) (\<lambda>nm. Inr (query_length r0 - nm))
       else if mate_is_unmapped r0 then
         try_bind (tag_NM r0) (\<lambda>nm. Inr (query_length r0 - nm))
       else
         try_bind (tag_NM r0) (\<lambda>nm0.
         try_bind (item pe_read 1) (\<lambda>r1.
         try_bind (tag_NM r1) (\<lambda>nm1.
           Inr ((query_length r0 - nm0) + (query_length r1 - nm1))))))"

text \<open>
  The last line of \<^verbatim>\<open>compute_perc_id\<close>:
  \<^verbatim>\<open>100 * (length - edit)/float(length)\<close>: the integer \<^verbatim>\<open>100 * (length - edit)\<close>
  divided by the float \<^verbatim>\<open>float(length)\<close>. Python converts the integer to a float
  and rounds the quotient. \<^verbatim>\<open>float(length)\<close> is 0.0 for the length 0 only, and
  the division raises \<^verbatim>\<open>ZeroDivisionError\<close> then.
\<close>

definition perc_id_of :: "(rat \<Rightarrow> rat) \<Rightarrow> int \<Rightarrow> int \<Rightarrow> error + rat" where
  "perc_id_of rnd len edit =
     (if len = 0 then Inl ZeroDivisionError
      else Inr (rnd (rnd (of_int (100 * (len - edit))) / rnd (of_int len))))"

definition compute_perc_id :: "(rat \<Rightarrow> rat) \<Rightarrow> aligned_segment list \<Rightarrow> error + rat" where
  "compute_perc_id rnd pe_read =
     try_bind (item pe_read 0) (\<lambda>r0.
       if \<not> is_paired r0 then
         try_bind (tag_NM r0) (\<lambda>edit. perc_id_of rnd (query_length r0) edit)
       else if mate_is_unmapped r0 then
         try_bind (tag_NM r0) (\<lambda>edit. perc_id_of rnd (query_length r0) edit)
       else
         try_bind (item pe_read 1) (\<lambda>r1.
         try_bind (tag_NM r0) (\<lambda>nm0.
         try_bind (tag_NM r1) (\<lambda>nm1.
           perc_id_of rnd (query_length r0 + query_length r1) (nm0 + nm1)))))"

text \<open>The two mates of the spec's example: length 100 with 2 and with 3 edits.\<close>

definition example_mate1 :: aligned_segment where
  "example_mate1 =
     \<lparr>query_name = ''r1'', is_paired = True, mate_is_unmapped = False,
      is_read1 = True, is_read2 = False, reference_id = 0, query_length = 100,
      tags = [(''AS'', -4), (''NM'', 2)]\<rparr>"

definition example_mate2 :: aligned_segment where
  "example_mate2 =
     \<lparr>query_name = ''r1'', is_paired = True, mate_is_unmapped = False,
      is_read1 = False, is_read2 = True, reference_id = 0, query_length = 100,
      tags = [(''AS'', -6), (''NM'', 3)]\<rparr>"

definition example_single :: aligned_segment where
  "example_single =
     \<lparr>query_name = ''r2'', is_paired = False, mate_is_unmapped = False,
      is_read1 = False, is_read2 = False, reference_id = 0, query_length = 100,
      tags = [(''NM'', 5)]\<rparr>"

text \<open>A read of length 3 with one edit: its percent identity, 200/3, is no double.\<close>

definition short_read :: aligned_segment where
  "short_read =
     \<lparr>query_name = ''r6'', is_paired = False, mate_is_unmapped = False,
      is_read1 = False, is_read2 = False, reference_id = 0, query_length = 3,
      tags = [(''NM'', 1)]\<rparr>"

definition zero_length_read :: aligned_segment where
  "zero_length_read =
     \<lparr>query_name = ''r3'', is_paired = False, mate_is_unmapped = False,
      is_read1 = False, is_read2 = False, reference_id = 0, query_length = 0,
      tags = [(''NM'', 0)]\<rparr>"

text \<open>
  The total query length \<^verbatim>\<open>compute_perc_id\<close> divides by: of the first record for
  a single-end or mate-unmapped unit, of both records for a full pair.
\<close>

definition total_query_length :: "aligned_segment list \<Rightarrow> int" where
  "total_query_length pe_read =
     (case pe_read of
        [] \<Rightarrow> 0
      | r0 # rest \<Rightarrow>
          if \<not> is_paired r0 \<or> mate_is_unmapped r0 then query_length r0
          else (case rest of [] \<Rightarrow> query_length r0 | r1 # _ \<Rightarrow> query_length r0 + query_length r1))"

text \<open>
  What \<^verbatim>\<open>compute_aln_score\<close> and \<^verbatim>\<open>compute_perc_id\<close> read of a unit: its
  first record, the second one of a full pair, and the \<^verbatim>\<open>NM\<close> tag of each.
\<close>

definition has_NM :: "aligned_segment \<Rightarrow> bool" where
  "has_NM a = (map_of (rev (tags a)) ''NM'' \<noteq> None)"

definition readable :: "aligned_segment list \<Rightarrow> bool" where
  "readable pe_read =
     (case pe_read of
        [] \<Rightarrow> False
      | r0 # rest \<Rightarrow>
          if \<not> is_paired r0 \<or> mate_is_unmapped r0 then has_NM r0
          else (case rest of [] \<Rightarrow> False | r1 # _ \<Rightarrow> has_NM r0 \<and> has_NM r1))"

subsection \<open>Reading units from an alignment file\<close>

text \<open>
  A pysam alignment file: the records \<^verbatim>\<open>fetch(until_eof = True)\<close> iterates over,
  and \<^verbatim>\<open>getrname\<close>, the name of a reference by its index.
\<close>

record alignment_file =
  fetch :: "aligned_segment list"
  getrname :: "int \<Rightarrow> error + string"

text \<open>
  The generator \<^verbatim>\<open>fetch_reads\<close> as the list of the units it yields; the first
  argument of the loop is the buffer \<^verbatim>\<open>pe_read\<close>.
\<close>

fun fetch_reads_loop ::
  "aligned_segment list \<Rightarrow> aligned_segment list \<Rightarrow> aligned_segment list list" where
  "fetch_reads_loop pe_read [] = []"
| "fetch_reads_loop pe_read (aln # rest) =
     (if \<not> is_paired aln then [aln] # fetch_reads_loop pe_read rest
      else if mate_is_unmapped aln \<and> is_read1 aln then [aln] # fetch_reads_loop pe_read rest
      else if mate_is_unmapped aln \<and> is_read2 aln then [aln] # fetch_reads_loop pe_read rest
      else
        (let pe_read' = pe_read @ [aln] in
         if length pe_read' = 2 then pe_read' # fetch_reads_loop [] rest
         else fetch_reads_loop pe_read' rest))"

definition fetch_reads :: "alignment_file \<Rightarrow> aligned_segment list list" where
  "fetch_reads aln_file = fetch_reads_loop [] (fetch aln_file)"

text \<open>The records \<^verbatim>\<open>fetch_reads\<close> yields alone, and those it buffers.\<close>

definition yielded_alone :: "aligned_segment \<Rightarrow> bool" where
  "yielded_alone a = (\<not> is_paired a \<or> (mate_is_unmapped a \<and> (is_read1 a \<or> is_read2 a)))"

definition buffered :: "aligned_segment \<Rightarrow> bool" where
  "buffered a = (is_paired a \<and> \<not> (mate_is_unmapped a \<and> (is_read1 a \<or> is_read2 a)))"

text \<open>A list cut into consecutive pairs; an odd last element is left out.\<close>

fun pairs_of :: "'a list \<Rightarrow> 'a list list" where
  "pairs_of (x # y # rest) = [x, y] # pairs_of rest"
| "pairs_of _ = []"

text \<open>
  The shape of a unit as the specification words it: one record that is unpaired or
  has its mate unmapped, or two paired records whose mates are mapped.
\<close>

definition mapped_mate_pair :: "aligned_segment \<Rightarrow> bool" where
  "mapped_mate_pair a = (is_paired a \<and> \<not> mate_is_unmapped a)"

definition unit_as_specified :: "aligned_segment list \<Rightarrow> bool" where
  "unit_as_specified u =
     (case u of
        [a] \<Rightarrow> \<not> is_paired a \<or> mate_is_unmapped a
      | [a, b] \<Rightarrow> mapped_mate_pair a \<and> mapped_mate_pair b
      | _ \<Rightarrow> False)"

text \<open>
  A record flagged paired with the mate unmapped, and neither first nor second read
  (SAM flag 9).
\<close>

definition unplaced_mate :: aligned_segment where
  "unplaced_mate =
     \<lparr>query_name = ''r4'', is_paired = True, mate_is_unmapped = True,
      is_read1 = False, is_read2 = False, reference_id = 0, query_length = 100,
      tags = [(''NM'', 0)]\<rparr>"

text \<open>The shape of a unit as the loop produces it.\<close>

definition unit_as_yielded :: "aligned_segment list \<Rightarrow> bool" where
  "unit_as_yielded u =
     (case u of
        [a] \<Rightarrow> yielded_alone a
      | [a, b] \<Rightarrow> buffered a \<and> buffered b
      | _ \<Rightarrow> False)"

definition example_file :: alignment_file where
  "example_file =
     \<lparr>fetch = [example_mate1, example_single, example_mate2, example_mate1],
      getrname = (\<lambda>i. Inr ''gi|scaffold1|'')\<rparr>"

definition unplaced_file :: alignment_file where
  "unplaced_file =
     \<lparr>fetch = [unplaced_mate, unplaced_mate], getrname = (\<lambda>i. Inr ''gi|scaffold1|'')\<rparr>"

subsection \<open>Strings\<close>

text \<open>\<^verbatim>\<open>s.split(sep)\<close> for a separator of one character; the first argument is the
  piece being read.\<close>

fun split_acc :: "char \<Rightarrow> string \<Rightarrow> string \<Rightarrow> string list" where
  "split_acc sep w [] = [w]"
| "split_acc sep w (c # cs) =
     (if c = sep then w # split_acc sep [] cs else split_acc sep (w @ [c]) cs)"

definition split_on :: "char \<Rightarrow> string \<Rightarrow> string list" where
  "split_on sep s = split_acc sep [] s"

subsection \<open>Best hits\<close>

text \<open>
  A value of \<^verbatim>\<open>best_hits\<close> while the alignments are read: the dict
  \<^verbatim>\<open>{'score': score, 'aln': {cluster_id: pe_read}}\<close>.
\<close>

record hit =
  score :: int
  aln :: "(string \<times> aligned_segment list) list"

text \<open>
  Lines 309 to 316 of \<^verbatim>\<open>find_best_hits\<close>: what one scored unit does to
  \<^verbatim>\<open>best_hits\<close>.
\<close>

definition store_hit ::
  "rat \<Rightarrow> string \<Rightarrow> aligned_segment list \<Rightarrow> string \<Rightarrow> int \<Rightarrow> rat \<Rightarrow>
   (string \<times> hit) list \<Rightarrow> (string \<times> hit) list" where
  "store_hit pid_min cluster_id pe_read query sc p best_hits =
     (if p < pid_min then best_hits
      else
        (case map_of best_hits query of
           None \<Rightarrow> AList.update query \<lparr>score = sc, aln = [(cluster_id, pe_read)]\<rparr> best_hits
         | Some h \<Rightarrow>
             if sc > score h then
               AList.update query \<lparr>score = sc, aln = [(cluster_id, pe_read)]\<rparr> best_hits
             else if sc = score h then
               AList.update query (h\<lparr>aln := AList.update cluster_id pe_read (aln h)\<rparr>) best_hits
             else best_hits))"

text \<open>Lines 305 to 316: the unit is scored, then stored.\<close>

definition parse_pe_read ::
  "(rat \<Rightarrow> rat) \<Rightarrow> rat \<Rightarrow> string \<Rightarrow> aligned_segment list \<Rightarrow> (string \<times> hit) list \<Rightarrow>
   error + (string \<times> hit) list" where
  "parse_pe_read rnd pid_min cluster_id pe_read best_hits =
     try_bind (item pe_read 0) (\<lambda>r0.
     try_bind (compute_aln_score pe_read) (\<lambda>sc.
     try_bind (compute_perc_id rnd pe_read) (\<lambda>p.
       Inr (store_hit pid_min cluster_id pe_read (query_name r0) sc p best_hits))))"

text \<open>\<^verbatim>\<open>aln_file.getrname(ref_index).split('|')[1]\<close>.\<close>

definition reformat_ref_id :: "alignment_file \<Rightarrow> int \<Rightarrow> error + string" where
  "reformat_ref_id aln_file ref_index =
     try_bind (getrname aln_file ref_index) (\<lambda>name. item (split_on CHR ''|'' name) 1)"

text \<open>Lines 292 to 295: the reference ids of a unit's records go to
  \<^verbatim>\<open>reference_map\<close>.\<close>

fun map_reference_ids ::
  "string \<Rightarrow> alignment_file \<Rightarrow> aligned_segment list \<Rightarrow> ((string \<times> int) \<times> string) list \<Rightarrow>
   error + ((string \<times> int) \<times> string) list" where
  "map_reference_ids cluster_id aln_file [] reference_map = Inr reference_map"
| "map_reference_ids cluster_id aln_file (a # rest) reference_map =
     try_bind (reformat_ref_id aln_file (reference_id a)) (\<lambda>r.
       map_reference_ids cluster_id aln_file rest
         (AList.update (cluster_id, reference_id a) r reference_map))"

text \<open>
  Lines 298 to 303: with masking on, a unit is skipped when the genome its read comes
  from is the genome of the scaffold it aligns to.
\<close>

definition masked ::
  "(string \<times> string) list \<Rightarrow> (string \<times> string) list \<Rightarrow> alignment_file \<Rightarrow>
   aligned_segment list \<Rightarrow> error + bool" where
  "masked run_to_genome scaffold_to_genome aln_file pe_read =
     try_bind (item pe_read 0) (\<lambda>r0.
     try_bind (reformat_ref_id aln_file (reference_id r0)) (\<lambda>r.
     try_bind (item (split_on CHR ''.'' (query_name r0)) 0) (\<lambda>run_accession.
     try_bind (getitem run_to_genome run_accession) (\<lambda>g1.
     try_bind (getitem scaffold_to_genome r) (\<lambda>g2. Inr (g1 = g2))))))"

text \<open>
  The files \<^verbatim>\<open>find_best_hits\<close> reads for one batch: the BAM file of a cluster, if
  there is one, and with masking on the lines (genome id, scaffold id) of the
  cluster's \<^verbatim>\<open>genome_to_scaffold.gz\<close> and the lines (run accession, genome id) of
  \<^verbatim>\<open>tax_map\<close>. \<open>pid\<close> is \<^verbatim>\<open>args['pid']\<close>.
\<close>

record args =
  pid :: rat
  bam :: "string \<Rightarrow> alignment_file option"
  genome_to_scaffold :: "string \<Rightarrow> (string \<times> string) list"
  tax_map_lines :: "(string \<times> string) list"

definition scaffold_to_genome_of :: "(string \<times> string) list \<Rightarrow> (string \<times> string) list" where
  "scaffold_to_genome_of file_lines =
     fold (\<lambda>(genome_id, scaffold_id) d. AList.update scaffold_id genome_id d) file_lines []"

definition run_to_genome_of :: "(string \<times> string) list \<Rightarrow> (string \<times> string) list" where
  "run_to_genome_of file_lines =
     fold (\<lambda>(run_accession, genome_id) d. AList.update run_accession genome_id d) file_lines []"

text \<open>Lines 291 to 316: the body of the loop over the units of one cluster.\<close>

definition pe_read_step ::
  "(rat \<Rightarrow> rat) \<Rightarrow> args \<Rightarrow> bool \<Rightarrow> string \<Rightarrow> alignment_file \<Rightarrow> aligned_segment list \<Rightarrow>
   (string \<times> hit) list \<times> ((string \<times> int) \<times> string) list \<Rightarrow>
   error + (string \<times> hit) list \<times> ((string \<times> int) \<times> string) list" where
  "pe_read_step rnd a tax_mask cluster_id aln_file pe_read st =
     try_bind (map_reference_ids cluster_id aln_file pe_read (snd st)) (\<lambda>reference_map.
     try_bind
       (if tax_mask then
          masked (run_to_genome_of (tax_map_lines a))
            (scaffold_to_genome_of (genome_to_scaffold a cluster_id)) aln_file pe_read
        else Inr False) (\<lambda>skip.
       if skip then Inr (fst st, reference_map)
       else
         try_bind (parse_pe_read rnd (pid a) cluster_id pe_read (fst st)) (\<lambda>best_hits.
           Inr (best_hits, reference_map))))"

fun pe_read_loop ::
  "(rat \<Rightarrow> rat) \<Rightarrow> args \<Rightarrow> bool \<Rightarrow> string \<Rightarrow> alignment_file \<Rightarrow> aligned_segment list list \<Rightarrow>
   (string \<times> hit) list \<times> ((string \<times> int) \<times> string) list \<Rightarrow>
   error + (string \<times> hit) list \<times> ((string \<times> int) \<times> string) list" where
  "pe_read_loop rnd a tax_mask cluster_id aln_file [] st = Inr st"
| "pe_read_loop rnd a tax_mask cluster_id aln_file (pe_read # rest) st =
     try_bind (pe_read_step rnd a tax_mask cluster_id aln_file pe_read st)
       (pe_read_loop rnd a tax_mask cluster_id aln_file rest)"

text \<open>Lines 266 to 316: the loop over the genome clusters; a cluster without a BAM
  file for the batch is skipped with a warning.\<close>

fun cluster_loop ::
  "(rat \<Rightarrow> rat) \<Rightarrow> args \<Rightarrow> bool \<Rightarrow> string list \<Rightarrow>
   (string \<times> hit) list \<times> ((string \<times> int) \<times> string) list \<Rightarrow>
   error + (string \<times> hit) list \<times> ((string \<times> int) \<times> string) list" where
  "cluster_loop rnd a tax_mask [] st = Inr st"
| "cluster_loop rnd a tax_mask (cluster_id # rest) st =
     (case bam a cluster_id of
        None \<Rightarrow> cluster_loop rnd a tax_mask rest st
      | Some aln_file \<Rightarrow>
          try_bind (pe_read_loop rnd a tax_mask cluster_id aln_file (fetch_reads aln_file) st)
            (cluster_loop rnd a tax_mask rest))"

subsection \<open>Resolving ties\<close>

text \<open>
  A value of \<^verbatim>\<open>best_hits\<close> in \<^verbatim>\<open>resolve_ties\<close>: the dict of a hit until its
  entry is overwritten, the pair \<^verbatim>\<open>(cluster_id, pe_read)\<close> afterwards.
\<close>

datatype assignment = Unresolved hit | Assigned string "aligned_segment list"

text \<open>
  \<^verbatim>\<open>probs = [abund/sum(abunds) for abund in abunds]\<close>, on Python floats: the
  division raises when the sum is 0.
\<close>

definition normalise :: "rat list \<Rightarrow> error + rat list" where
  "normalise abunds =
     (if abunds \<noteq> [] \<and> sum_list abunds = 0 then Inl ZeroDivisionError
      else Inr (map (\<lambda>abund. abund / sum_list abunds) abunds))"

text \<open>\<^verbatim>\<open>abunds = [cluster_to_abun[gc] for gc in target_gcs]\<close>.\<close>

fun abundances :: "(string \<times> rat) list \<Rightarrow> string list \<Rightarrow> error + rat list" where
  "abundances cluster_to_abun [] = Inr []"
| "abundances cluster_to_abun (gc # rest) =
     try_bind (getitem cluster_to_abun gc) (\<lambda>abund.
     try_bind (abundances cluster_to_abun rest) (\<lambda>others. Inr (abund # others)))"

text \<open>
  \<^verbatim>\<open>np.random.choice(target_gcs, 1, p=probs)[0]\<close>. NumPy refuses weights that are
  negative or do not sum to 1; otherwise it returns an element of \<^verbatim>\<open>target_gcs\<close>,
  the one at index \<open>i\<close> with probability \<open>probs ! i\<close>. The element drawn for the read
  \<open>query\<close> is \<open>draw query target_gcs probs\<close>: the parameter \<open>draw\<close> stands for the
  random source.
\<close>

definition random_choice ::
  "(string \<Rightarrow> string list \<Rightarrow> rat list \<Rightarrow> string) \<Rightarrow> string \<Rightarrow> string list \<Rightarrow> rat list \<Rightarrow>
   error + string" where
  "random_choice draw query a p =
     (if list_ex (\<lambda>x. x < 0) p \<or> sum_list p \<noteq> 1 then Inl ValueError
      else Inr (draw query a p))"

text \<open>The body of the loop of \<^verbatim>\<open>resolve_ties\<close>: the new value of one entry.\<close>

definition resolve_hit ::
  "(string \<Rightarrow> string list \<Rightarrow> rat list \<Rightarrow> string) \<Rightarrow> (string \<times> rat) list \<Rightarrow> string \<Rightarrow> hit \<Rightarrow>
   error + assignment" where
  "resolve_hit draw cluster_to_abun query rec =
     (if length (aln rec) = 1 then
        Inr (Assigned (fst (hd (aln rec))) (snd (hd (aln rec))))
      else if length (aln rec) > 1 then
        (let target_gcs = map fst (aln rec) in
         try_bind (abundances cluster_to_abun target_gcs) (\<lambda>abunds.
         try_bind (normalise abunds) (\<lambda>probs.
         try_bind (random_choice draw query target_gcs probs) (\<lambda>selected_gc.
         try_bind (getitem (aln rec) selected_gc) (\<lambda>pe_read.
           Inr (Assigned selected_gc pe_read))))))
      else Inr (Unresolved rec))"

fun resolve_loop ::
  "(string \<Rightarrow> string list \<Rightarrow> rat list \<Rightarrow> string) \<Rightarrow> (string \<times> rat) list \<Rightarrow>
   (string \<times> hit) list \<Rightarrow> (string \<times> assignment) list \<Rightarrow> error + (string \<times> assignment) list" where
  "resolve_loop draw cluster_to_abun [] best_hits = Inr best_hits"
| "resolve_loop draw cluster_to_abun ((query, rec) # rest) best_hits =
     try_bind (resolve_hit draw cluster_to_abun query rec) (\<lambda>v.
       resolve_loop draw cluster_to_abun rest (AList.update query v best_hits))"

definition resolve_ties ::
  "(string \<Rightarrow> string list \<Rightarrow> rat list \<Rightarrow> string) \<Rightarrow> (string \<times> hit) list \<Rightarrow> (string \<times> rat) list \<Rightarrow>
   error + (string \<times> assignment) list" where
  "resolve_ties draw best_hits cluster_to_abun =
     resolve_loop draw cluster_to_abun best_hits (map (\<lambda>(query, rec). (query, Unresolved rec)) best_hits)"

definition find_best_hits ::
  "(rat \<Rightarrow> rat) \<Rightarrow> (string \<Rightarrow> string list \<Rightarrow> rat list \<Rightarrow> string) \<Rightarrow> args \<Rightarrow> (string \<times> rat) list \<Rightarrow> bool \<Rightarrow>
   error + (string \<times> assignment) list \<times> ((string \<times> int) \<times> string) list" where
  "find_best_hits rnd draw a genome_clusters tax_mask =
     try_bind (cluster_loop rnd a tax_mask (map fst genome_clusters) ([], [])) (\<lambda>st.
     try_bind (resolve_ties draw (fst st) genome_clusters) (\<lambda>best_hits.
       Inr (best_hits, snd st)))"

subsection \<open>The units that reach the comparison of scores\<close>

text \<open>
  What one unit of a cluster's file contributes to the comparison at lines 309 to
  316, when nothing raises: nothing if masking skips it, else its read id, the
  cluster, its score, its percent identity and the unit itself.
\<close>

definition observation ::
  "(rat \<Rightarrow> rat) \<Rightarrow> args \<Rightarrow> bool \<Rightarrow> string \<Rightarrow> alignment_file \<Rightarrow> aligned_segment list \<Rightarrow>
   (string \<times> string \<times> int \<times> rat \<times> aligned_segment list) list" where
  "observation rnd a tax_mask cluster_id aln_file pe_read =
     (case (if tax_mask then
              masked (run_to_genome_of (tax_map_lines a))
                (scaffold_to_genome_of (genome_to_scaffold a cluster_id)) aln_file pe_read
            else Inr False) of
        Inr False \<Rightarrow>
          (case item pe_read 0 of
             Inr r0 \<Rightarrow>
               (case compute_aln_score pe_read of
                  Inr sc \<Rightarrow>
                    (case compute_perc_id rnd pe_read of
                       Inr p \<Rightarrow> [(query_name r0, cluster_id, sc, p, pe_read)]
                     | Inl _ \<Rightarrow> [])
                | Inl _ \<Rightarrow> [])
           | Inl _ \<Rightarrow> [])
      | _ \<Rightarrow> [])"

text \<open>
  The same over a batch, in the order of the two loops: the clusters in turn, a
  cluster without a BAM file contributing nothing, and the units of a cluster's file
  as \<open>fetch_reads\<close> yields them.
\<close>

definition observations ::
  "(rat \<Rightarrow> rat) \<Rightarrow> args \<Rightarrow> bool \<Rightarrow> string list \<Rightarrow>
   (string \<times> string \<times> int \<times> rat \<times> aligned_segment list) list" where
  "observations rnd a tax_mask clusters =
     concat (map (\<lambda>cluster_id.
       case bam a cluster_id of
         None \<Rightarrow> []
       | Some aln_file \<Rightarrow>
           concat (map (observation rnd a tax_mask cluster_id aln_file) (fetch_reads aln_file)))
       clusters)"

text \<open>\<open>store_hit\<close> on such a tuple.\<close>

definition store_observation ::
  "rat \<Rightarrow> string \<times> string \<times> int \<times> rat \<times> aligned_segment list \<Rightarrow>
   (string \<times> hit) list \<Rightarrow> (string \<times> hit) list" where
  "store_observation pid_min ob best_hits =
     (case ob of (query, cluster_id, sc, p, pe_read) \<Rightarrow>
        store_hit pid_min cluster_id pe_read query sc p best_hits)"

text \<open>
  The invariant of \<^verbatim>\<open>best_hits\<close>, for one read id \<open>q\<close>, against a set \<open>S\<close> of
  tuples that passed the identity filter: no entry if \<open>S\<close> has none for \<open>q\<close>; else an
  entry whose score bounds every score of \<open>q\<close> in \<open>S\<close>, and whose alternatives are
  distinct, not empty, each a unit of \<open>S\<close> with that score, and hold every cluster
  that has that score in \<open>S\<close>.
\<close>

definition best_for ::
  "(string \<times> string \<times> int \<times> rat \<times> aligned_segment list) set \<Rightarrow> string \<Rightarrow> hit option \<Rightarrow> bool" where
  "best_for S q ho =
     (case ho of
        None \<Rightarrow> (\<forall>c sc p u. (q, c, sc, p, u) \<notin> S)
      | Some h \<Rightarrow>
          aln h \<noteq> [] \<and> distinct (map fst (aln h)) \<and>
          (\<forall>c sc p u. (q, c, sc, p, u) \<in> S \<longrightarrow> sc \<le> score h) \<and>
          (\<forall>c u. map_of (aln h) c = Some u \<longrightarrow> (\<exists>p. (q, c, score h, p, u) \<in> S)) \<and>
          (\<forall>c p u. (q, c, score h, p, u) \<in> S \<longrightarrow> c \<in> fst ` set (aln h)))"

definition best_of ::
  "(string \<times> string \<times> int \<times> rat \<times> aligned_segment list) set \<Rightarrow> (string \<times> hit) list \<Rightarrow> bool" where
  "best_of S bh = (distinct (map fst bh) \<and> (\<forall>q. best_for S q (map_of bh q)))"

text \<open>The tuples whose percent identity reaches the threshold.\<close>

definition passing ::
  "rat \<Rightarrow> (string \<times> string \<times> int \<times> rat \<times> aligned_segment list) list \<Rightarrow>
   (string \<times> string \<times> int \<times> rat \<times> aligned_segment list) list" where
  "passing pid_min obs = filter (\<lambda>(query, cluster_id, sc, p, pe_read). pid_min \<le> p) obs"

text \<open>
  A batch for the examples: read \<open>r1\<close> aligns as a pair to cluster A with 5 edits in
  each mate (score 190) and to cluster B with 2 and 3 edits (score 195); read \<open>r5\<close>
  aligns to cluster A only, at 90 percent identity; the threshold is 94. Cluster C
  has no BAM file.
\<close>

definition cluster_A_mate1 :: aligned_segment where
  "cluster_A_mate1 = example_mate1\<lparr>tags := [(''NM'', 5)]\<rparr>"

definition cluster_A_mate2 :: aligned_segment where
  "cluster_A_mate2 = example_mate2\<lparr>tags := [(''NM'', 5)]\<rparr>"

definition low_identity_read :: aligned_segment where
  "low_identity_read =
     \<lparr>query_name = ''r5'', is_paired = False, mate_is_unmapped = False,
      is_read1 = False, is_read2 = False, reference_id = 0, query_length = 100,
      tags = [(''NM'', 10)]\<rparr>"

definition example_args :: args where
  "example_args =
     \<lparr>pid = 94,
      bam = (\<lambda>cluster_id.
        if cluster_id = ''A'' then
          Some \<lparr>fetch = [cluster_A_mate1, cluster_A_mate2, low_identity_read],
                getrname = (\<lambda>i. Inr ''gi|scaffold1|'')\<rparr>
        else if cluster_id = ''B'' then
          Some \<lparr>fetch = [example_mate1, example_mate2],
                getrname = (\<lambda>i. Inr ''gi|scaffold2|'')\<rparr>
        else None),
      genome_to_scaffold = (\<lambda>cluster_id. []),
      tax_map_lines = []\<rparr>"

definition example_clusters :: "(string \<times> rat) list" where
  "example_clusters = [(''A'', 1 / 4), (''B'', 3 / 4), (''C'', 0)]"

text \<open>A random source that always draws the first cluster listed.\<close>

definition first_listed :: "string \<Rightarrow> string list \<Rightarrow> rat list \<Rightarrow> string" where
  "first_listed query a p = hd a"

text \<open>A read tied at score 190 between clusters A and B, and two clusters of
  abundance 0.\<close>

definition tied_best_hits :: "(string \<times> hit) list" where
  "tied_best_hits =
     [(''r1'', \<lparr>score = 190,
               aln = [(''A'', [cluster_A_mate1, cluster_A_mate2]),
                      (''B'', [cluster_A_mate1, cluster_A_mate2])]\<rparr>)]"

definition zero_abundance_clusters :: "(string \<times> rat) list" where
  "zero_abundance_clusters = [(''A'', 0), (''B'', 0)]"

text \<open>
  What \<open>resolve_ties\<close> needs of an entry to overwrite it: an alternative, and for
  a tie an abundance for each tied cluster, none negative, their sum not 0, and a
  random source that draws one of the tied clusters.
\<close>

definition drawable ::
  "(string \<Rightarrow> string list \<Rightarrow> rat list \<Rightarrow> string) \<Rightarrow> (string \<times> rat) list \<Rightarrow> string \<Rightarrow> hit \<Rightarrow> bool" where
  "drawable draw cluster_to_abun query rec =
     (aln rec \<noteq> [] \<and>
      (length (aln rec) > 1 \<longrightarrow>
         (\<forall>gc \<in> fst ` set (aln rec). \<exists>abund. map_of cluster_to_abun gc = Some abund \<and> 0 \<le> abund)
         \<and> sum_list (map (\<lambda>gc. the (map_of cluster_to_abun gc)) (map fst (aln rec))) \<noteq> 0
         \<and> (\<forall>probs. draw query (map fst (aln rec)) probs \<in> fst ` set (aln rec))))"

subsection \<open>NumPy floats\<close>

text \<open>
  A NumPy \<^verbatim>\<open>float64\<close>: a rational, an infinity or \<^verbatim>\<open>nan\<close>. NumPy
  arithmetic raises nothing: a division by zero gives an infinity or \<^verbatim>\<open>nan\<close>
  with a warning. An operation on floats is the exact operation followed by the
  rounding of the format, which is a parameter \<open>rnd\<close> of the model: the identity
  for exact arithmetic, \<open>round_double\<close> below for IEEE binary64. Signed zeros are
  not told apart, and overflow to an infinity and the subnormal range are left out.
\<close>

datatype npfloat = Finite rat | PosInf | NegInf | NaN

instantiation npfloat :: comm_monoid_add
begin

definition zero_npfloat :: npfloat where
  "zero_npfloat = Finite 0"

fun plus_npfloat :: "npfloat \<Rightarrow> npfloat \<Rightarrow> npfloat" where
  "plus_npfloat (Finite a) (Finite b) = Finite (a + b)"
| "plus_npfloat (Finite a) PosInf = PosInf"
| "plus_npfloat (Finite a) NegInf = NegInf"
| "plus_npfloat PosInf (Finite b) = PosInf"
| "plus_npfloat PosInf PosInf = PosInf"
| "plus_npfloat NegInf (Finite b) = NegInf"
| "plus_npfloat NegInf NegInf = NegInf"
| "plus_npfloat PosInf NegInf = NaN"
| "plus_npfloat NegInf PosInf = NaN"
| "plus_npfloat NaN y = NaN"
| "plus_npfloat x NaN = NaN"

instance
proof
  fix x y z :: npfloat
  have finite_zero: "Finite 0 + x = x"
    by (cases x) simp_all
  then show "0 + x = x"
    by (simp only: zero_npfloat_def)
  show "x + y = y + x"
    by (cases x; cases y; simp)
  show "x + y + z = x + (y + z)"
    by (cases x; cases y; cases z; simp)
qed

end

text \<open>The exact sum is \<open>+\<close>; the exact product and quotient follow.\<close>

fun exact_times :: "npfloat \<Rightarrow> npfloat \<Rightarrow> npfloat" where
  "exact_times (Finite a) (Finite b) = Finite (a * b)"
| "exact_times (Finite a) PosInf = (if a = 0 then NaN else if 0 < a then PosInf else NegInf)"
| "exact_times (Finite a) NegInf = (if a = 0 then NaN else if 0 < a then NegInf else PosInf)"
| "exact_times PosInf (Finite b) = (if b = 0 then NaN else if 0 < b then PosInf else NegInf)"
| "exact_times NegInf (Finite b) = (if b = 0 then NaN else if 0 < b then NegInf else PosInf)"
| "exact_times PosInf PosInf = PosInf"
| "exact_times NegInf NegInf = PosInf"
| "exact_times PosInf NegInf = NegInf"
| "exact_times NegInf PosInf = NegInf"
| "exact_times NaN y = NaN"
| "exact_times x NaN = NaN"

fun exact_divide :: "npfloat \<Rightarrow> npfloat \<Rightarrow> npfloat" where
  "exact_divide (Finite a) (Finite b) =
     (if b \<noteq> 0 then Finite (a / b)
      else if a = 0 then NaN else if 0 < a then PosInf else NegInf)"
| "exact_divide (Finite a) PosInf = Finite 0"
| "exact_divide (Finite a) NegInf = Finite 0"
| "exact_divide PosInf (Finite b) = (if 0 \<le> b then PosInf else NegInf)"
| "exact_divide NegInf (Finite b) = (if 0 \<le> b then NegInf else PosInf)"
| "exact_divide PosInf PosInf = NaN"
| "exact_divide PosInf NegInf = NaN"
| "exact_divide NegInf PosInf = NaN"
| "exact_divide NegInf NegInf = NaN"
| "exact_divide NaN y = NaN"
| "exact_divide x NaN = NaN"

fun np_round :: "(rat \<Rightarrow> rat) \<Rightarrow> npfloat \<Rightarrow> npfloat" where
  "np_round rnd (Finite a) = Finite (rnd a)"
| "np_round rnd PosInf = PosInf"
| "np_round rnd NegInf = NegInf"
| "np_round rnd NaN = NaN"

definition np_add :: "(rat \<Rightarrow> rat) \<Rightarrow> npfloat \<Rightarrow> npfloat \<Rightarrow> npfloat" where
  "np_add rnd x y = np_round rnd (x + y)"

definition np_times :: "(rat \<Rightarrow> rat) \<Rightarrow> npfloat \<Rightarrow> npfloat \<Rightarrow> npfloat" where
  "np_times rnd x y = np_round rnd (exact_times x y)"

definition np_divide :: "(rat \<Rightarrow> rat) \<Rightarrow> npfloat \<Rightarrow> npfloat \<Rightarrow> npfloat" where
  "np_divide rnd x y = np_round rnd (exact_divide x y)"

text \<open>An integer converted to a float.\<close>

definition np_of_int :: "(rat \<Rightarrow> rat) \<Rightarrow> int \<Rightarrow> npfloat" where
  "np_of_int rnd n = Finite (rnd (of_int n))"

text \<open>
  Rounding to IEEE binary64, to nearest with ties to even: \<open>binade x\<close> is the
  exponent \<open>e\<close> with \<open>2 ^ e \<le> \<bar>x\<bar> < 2 ^ (e + 1)\<close>, and \<open>x\<close> is rounded to a
  multiple of \<open>2 ^ (e - 52)\<close>, which leaves 53 significant bits.
\<close>

fun bit_length :: "nat \<Rightarrow> nat" where
  "bit_length n = (if n = 0 then 0 else Suc (bit_length (n div 2)))"

definition pow2 :: "int \<Rightarrow> rat" where
  "pow2 e = (if 0 \<le> e then 2 ^ nat e else 1 / 2 ^ nat (- e))"

definition round_half_even :: "rat \<Rightarrow> int" where
  "round_half_even x =
     (let f = \<lfloor>x\<rfloor>; d = x - of_int f
      in if d < 1 / 2 then f else if 1 / 2 < d then f + 1 else if even f then f else f + 1)"

definition binade :: "rat \<Rightarrow> int" where
  "binade x =
     (let d = int (bit_length (nat (fst (quotient_of \<bar>x\<bar>))))
            - int (bit_length (nat (snd (quotient_of \<bar>x\<bar>))))
      in if pow2 d \<le> \<bar>x\<bar> then d else d - 1)"

definition round_double :: "rat \<Rightarrow> rat" where
  "round_double x =
     (if x = 0 then 0
      else of_int (round_half_even (x / pow2 (binade x - 52))) * pow2 (binade x - 52))"

text \<open>\<^verbatim>\<open>x > 0\<close>: false for \<^verbatim>\<open>nan\<close>.\<close>

fun np_positive :: "npfloat \<Rightarrow> bool" where
  "np_positive (Finite a) = (0 < a)"
| "np_positive PosInf = True"
| "np_positive NegInf = False"
| "np_positive NaN = False"

text \<open>
  \<^verbatim>\<open>np.mean\<close> of a list of integers: \<^verbatim>\<open>nan\<close> for the empty list, else the sum
  of the values as a float, divided by their number. NumPy adds the values as floats
  in an order of its own; the sum is taken here as the float nearest to the exact sum,
  which it is in every order of addition while the partial sums are integers below
  \<open>2 ^ 53\<close> in magnitude.
\<close>

definition np_mean :: "(rat \<Rightarrow> rat) \<Rightarrow> int list \<Rightarrow> npfloat" where
  "np_mean rnd xs =
     (if xs = [] then NaN
      else np_divide rnd (np_of_int rnd (sum_list xs)) (np_of_int rnd (int (length xs))))"

subsection \<open>Read length\<close>

definition max_reads :: nat where
  "max_reads = 50000"

text \<open>
  The inner loop of \<^verbatim>\<open>get_read_length\<close> over the records of one BAM file;
  \<open>index\<close> is the counter of \<^verbatim>\<open>enumerate\<close>, which starts at 0 for every file.
\<close>

fun sample_lengths :: "nat \<Rightarrow> aligned_segment list \<Rightarrow> int list \<Rightarrow> int list" where
  "sample_lengths index [] read_lengths = read_lengths"
| "sample_lengths index (a # rest) read_lengths =
     (if index = max_reads then read_lengths
      else sample_lengths (Suc index) rest (read_lengths @ [query_length a]))"

text \<open>The outer loop, over the files of the \<^verbatim>\<open>bam\<close> directory, and the mean.\<close>

definition read_lengths_of :: "alignment_file list \<Rightarrow> int list" where
  "read_lengths_of files = fold (\<lambda>aln_file read_lengths. sample_lengths 0 (fetch aln_file) read_lengths) files []"

definition get_read_length :: "(rat \<Rightarrow> rat) \<Rightarrow> alignment_file list \<Rightarrow> npfloat" where
  "get_read_length rnd files = np_mean rnd (read_lengths_of files)"

text \<open>A BAM file of \<open>n\<close> unpaired records of one length.\<close>

definition uniform_file :: "nat \<Rightarrow> int \<Rightarrow> alignment_file" where
  "uniform_file n len =
     \<lparr>fetch = replicate n (example_single\<lparr>query_length := len\<rparr>),
      getrname = (\<lambda>i. Inr ''gi|scaffold1|'')\<rparr>"

subsection \<open>Pangenome coverage\<close>

text \<open>A record of \<^verbatim>\<open>parse_bed_cov\<close>: one line of the coverage tool's output, its
  fields converted.\<close>

record bed_cov =
  sid :: string
  start :: int
  end_pos :: int
  gene_id :: string
  pangene_id :: string
  reads :: int
  pos_cov :: int
  gene_length :: int
  fract_cov :: rat

text \<open>\<^verbatim>\<open>pangene_to_cov[k]\<close> read on a \<^verbatim>\<open>defaultdict(float)\<close>.\<close>

definition lookup0 :: "(string \<times> npfloat) list \<Rightarrow> string \<Rightarrow> npfloat" where
  "lookup0 pangene_to_cov k = (case map_of pangene_to_cov k of None \<Rightarrow> 0 | Some v \<Rightarrow> v)"

text \<open>\<^verbatim>\<open>r['reads'] * read_length / r['gene_length']\<close>, with \<^verbatim>\<open>read_length\<close> a
  NumPy float.\<close>

definition coverage_of :: "(rat \<Rightarrow> rat) \<Rightarrow> npfloat \<Rightarrow> bed_cov \<Rightarrow> npfloat" where
  "coverage_of rnd read_length r =
     np_divide rnd (np_times rnd (np_of_int rnd (reads r)) read_length)
       (np_of_int rnd (gene_length r))"

text \<open>
  \<^verbatim>\<open>compute_pangenome_coverage\<close> on the records parsed from the coverage tool's
  output for one batch; the result is \<^verbatim>\<open>pangene_to_cov\<close> after the loop.
\<close>

definition add_coverage ::
  "(rat \<Rightarrow> rat) \<Rightarrow> npfloat \<Rightarrow> bed_cov \<Rightarrow> (string \<times> npfloat) list \<Rightarrow>
   (string \<times> npfloat) list" where
  "add_coverage rnd read_length r pangene_to_cov =
     AList.update (pangene_id r)
       (np_add rnd (lookup0 pangene_to_cov (pangene_id r)) (coverage_of rnd read_length r))
       pangene_to_cov"

definition compute_pangenome_coverage ::
  "(rat \<Rightarrow> rat) \<Rightarrow> npfloat \<Rightarrow> bed_cov list \<Rightarrow> (string \<times> npfloat) list \<Rightarrow>
   (string \<times> npfloat) list" where
  "compute_pangenome_coverage rnd read_length bedcov_out pangene_to_cov =
     fold (add_coverage rnd read_length) bedcov_out pangene_to_cov"

text \<open>
  Merging two partial coverage maps by addition, as the specification words it: every
  entry of the second map is added to the first.
\<close>

definition merge_coverage ::
  "(rat \<Rightarrow> rat) \<Rightarrow> (string \<times> npfloat) list \<Rightarrow> (string \<times> npfloat) list \<Rightarrow>
   (string \<times> npfloat) list" where
  "merge_coverage rnd m1 m2 =
     fold (\<lambda>(k, v) m. AList.update k (np_add rnd (lookup0 m k) v) m) m2 m1"

text \<open>
  \<^verbatim>\<open>write_pangene_coverage\<close>: the rows written, each the pangene, its coverage and
  its copy number, before \<^verbatim>\<open>str\<close> formats them.
\<close>

definition write_pangene_coverage ::
  "(rat \<Rightarrow> rat) \<Rightarrow> (string \<times> npfloat) list \<Rightarrow> npfloat \<Rightarrow> (string \<times> npfloat \<times> npfloat) list" where
  "write_pangene_coverage rnd pangene_to_cov phyeco_cov =
     map (\<lambda>pangene.
        let cov = lookup0 pangene_to_cov pangene;
            cn = (if np_positive phyeco_cov then np_divide rnd cov phyeco_cov else Finite 0)
        in (pangene, cov, cn))
       (sort (map fst pangene_to_cov))"

definition example_bed_cov :: "string \<Rightarrow> int \<Rightarrow> int \<Rightarrow> bed_cov" where
  "example_bed_cov pangene n len =
     \<lparr>sid = ''scaffold1'', start = 0, end_pos = len, gene_id = ''gene1'', pangene_id = pangene,
      reads = n, pos_cov = len, gene_length = len, fract_cov = 1\<rparr>"

declare bit_length.simps [simp del]

subsection \<open>Examples of rounding\<close>

text \<open>Exact arithmetic: no rounding.\<close>

definition no_rounding :: "rat \<Rightarrow> rat" where
  "no_rounding x = x"

text \<open>
  The doubles nearest to 0.1, 0.2 and 0.3, the double \<^verbatim>\<open>0.1 + 0.2\<close>, and the
  doubles \<^verbatim>\<open>0.6\<close> and \<^verbatim>\<open>0.6000000000000001\<close>.
\<close>

definition tenth :: rat where
  "tenth = 3602879701896397 / 2 ^ 55"

definition fifth :: rat where
  "fifth = 3602879701896397 / 2 ^ 54"

definition three_tenths :: rat where
  "three_tenths = 5404319552844595 / 2 ^ 54"

definition tenth_plus_fifth :: rat where
  "tenth_plus_fifth = 5404319552844596 / 2 ^ 54"

definition six_tenths :: rat where
  "six_tenths = 5404319552844595 / 2 ^ 53"

definition six_tenths_up :: rat where
  "six_tenths_up = 5404319552844596 / 2 ^ 53"

text \<open>
  Three batches of one record each for the same pangene, of coverage 0.1, 0.2 and 0.3
  at a read length of 100: 1, 2 and 3 reads on a gene of length 1000.
\<close>

definition three_batches :: "bed_cov list list" where
  "three_batches =
     [[example_bed_cov ''p1'' 1 1000], [example_bed_cov ''p1'' 2 1000],
      [example_bed_cov ''p1'' 3 1000]]"

text \<open>Coverage of two pangenes, for the examples.\<close>

definition example_coverage :: "(string \<times> npfloat) list" where
  "example_coverage = [(''p2'', Finite 4), (''p1'', Finite 2)]"

subsection \<open>Parsing pileup lines\<close>

text \<open>
  The whitespace of \<^verbatim>\<open>str.split()\<close> and \<^verbatim>\<open>str.rstrip()\<close> on a byte string:
  space, tab, line feed, vertical tab, form feed and carriage return.
\<close>

definition is_space :: "char \<Rightarrow> bool" where
  "is_space c = (c \<in> set [CHR '' '', CHR 0x09, CHR 0x0A, CHR 0x0B, CHR 0x0C, CHR 0x0D])"

definition rstrip :: "string \<Rightarrow> string" where
  "rstrip s = rev (dropWhile is_space (rev s))"

text \<open>\<^verbatim>\<open>s.split()\<close>: the maximal runs of characters that are not whitespace; the
  first argument is the run being read.\<close>

fun words_acc :: "string \<Rightarrow> string \<Rightarrow> string list" where
  "words_acc w [] = (if w = [] then [] else [w])"
| "words_acc w (c # cs) =
     (if is_space c then (if w = [] then words_acc [] cs else w # words_acc [] cs)
      else words_acc (w @ [c]) cs)"

definition split_ws :: "string \<Rightarrow> string list" where
  "split_ws s = words_acc [] s"

text \<open>
  \<^verbatim>\<open>int(s)\<close> for a string without whitespace: an optional sign and one or more
  decimal digits; \<^verbatim>\<open>ValueError\<close> otherwise.
\<close>

definition is_digit :: "char \<Rightarrow> bool" where
  "is_digit c = (c \<in> set ''0123456789'')"

definition digit_value :: "char \<Rightarrow> int" where
  "digit_value c = int (of_char c) - 48"

definition py_int :: "string \<Rightarrow> error + int" where
  "py_int s =
     (let signed = (s \<noteq> [] \<and> (hd s = CHR ''+'' \<or> hd s = CHR ''-''));
          digits = (if signed then tl s else s)
      in if digits = [] \<or> \<not> list_all is_digit digits then Inl ValueError
         else
           (let n = foldl (\<lambda>acc c. 10 * acc + digit_value c) 0 digits
            in Inr (if hd s = CHR ''-'' then - n else n)))"

fun py_ints :: "string list \<Rightarrow> error + int list" where
  "py_ints [] = Inr []"
| "py_ints (s # rest) =
     try_bind (py_int s) (\<lambda>n. try_bind (py_ints rest) (\<lambda>ns. Inr (n # ns)))"

text \<open>
  \<^verbatim>\<open>dict([(_.split('=')) for _ in r[7].split(';')])\<close>: every piece must split into
  exactly a key and a value, else \<^verbatim>\<open>dict\<close> raises \<^verbatim>\<open>ValueError\<close>.
\<close>

fun info_pairs :: "string list \<Rightarrow> error + (string \<times> string) list" where
  "info_pairs [] = Inr []"
| "info_pairs (p # ps) =
     (case split_on CHR ''='' p of
        [k, v] \<Rightarrow> try_bind (info_pairs ps) (\<lambda>rest. Inr ((k, v) # rest))
      | _ \<Rightarrow> Inl ValueError)"

text \<open>A value that is the string \<^verbatim>\<open>'NA'\<close> or a float.\<close>

datatype freq = NA | Freq rat

text \<open>The dict \<^verbatim>\<open>parse_vcf\<close> yields for a line.\<close>

record snp =
  ref_id :: string
  ref_pos :: string
  ref_allele :: string
  count_alleles :: nat
  alt_allele :: string
  depth :: int
  count_ref :: int
  count_alt :: int
  cons_allele :: string
  ref_freq :: freq

text \<open>
  Lines 526 to 533: the fields \<^verbatim>\<open>r\<close> of the line, the alternate alleles listed,
  \<^verbatim>\<open><X>\<close> removed once, and the first four counts of \<^verbatim>\<open>I16\<close>.
\<close>

definition vcf_fields :: "string \<Rightarrow> error + string list \<times> string list \<times> int list" where
  "vcf_fields line =
     (let r = split_ws (rstrip line) in
      try_bind (item r 4) (\<lambda>r4.
        let listed = split_on CHR '','' r4;
            alt_alleles = (if ''<X>'' \<in> set listed then remove1 ''<X>'' listed else listed)
        in
      try_bind (item r 7) (\<lambda>r7.
      try_bind (info_pairs (split_on CHR '';'' r7)) (\<lambda>info.
      try_bind (getitem (rev info) ''I16'') (\<lambda>i16.
      try_bind (py_ints (take 4 (split_on CHR '','' i16))) (\<lambda>counts.
        Inr (r, alt_alleles, counts)))))))"

text \<open>
  Lines 530 and 534 to 555: the consensus allele and the record yielded. The
  reference frequency is \<^verbatim>\<open>sum(counts[0:2])/float(sum(counts))\<close>, an integer divided
  by a float: both are floats, and the quotient is rounded.
\<close>

definition vcf_record :: "(rat \<Rightarrow> rat) \<Rightarrow> string list \<Rightarrow> string list \<Rightarrow> int list \<Rightarrow> snp" where
  "vcf_record rnd r alt_alleles counts =
     (let count_alleles = 1 + length alt_alleles;
          cons_allele =
            (if sum_list counts = 0 then ''NA''
             else if sum_list (take 2 counts) \<ge> sum_list (take 2 (drop 2 counts)) then r ! 3
             else if length alt_alleles = 0 then ''NA''
             else alt_alleles ! 0)
      in \<lparr>ref_id = r ! 0,
          ref_pos = r ! 1,
          ref_allele = r ! 3,
          count_alleles = count_alleles,
          alt_allele = (if count_alleles > 1 then alt_alleles ! 0 else ''NA''),
          depth = sum_list counts,
          count_ref = sum_list (take 2 counts),
          count_alt = sum_list (take 2 (drop 2 counts)),
          cons_allele = cons_allele,
          ref_freq =
            (if sum_list counts = 0 then NA
             else Freq (rnd (rnd (of_int (sum_list (take 2 counts)))
                          / rnd (of_int (sum_list counts)))))\<rparr>)"

text \<open>
  The body of the loop of \<^verbatim>\<open>parse_vcf\<close> for one line of the file: nothing for a
  header line, else the record. The indices 0, 1 and 3 of \<^verbatim>\<open>r\<close> are in range
  once index 7 is.
\<close>

definition parse_vcf_line :: "(rat \<Rightarrow> rat) \<Rightarrow> string \<Rightarrow> error + snp option" where
  "parse_vcf_line rnd line =
     try_bind (item line 0) (\<lambda>c.
       if c = CHR ''#'' then Inr None
       else
         try_bind (vcf_fields line) (\<lambda>(r, alt_alleles, counts).
           Inr (Some (vcf_record rnd r alt_alleles counts))))"

text \<open>
  \<^verbatim>\<open>parse_vcf\<close> as the list of the records it yields; a line that raises ends the
  generator with the exception.
\<close>

fun parse_vcf :: "(rat \<Rightarrow> rat) \<Rightarrow> string list \<Rightarrow> error + snp list" where
  "parse_vcf rnd [] = Inr []"
| "parse_vcf rnd (line # rest) =
     try_bind (parse_vcf_line rnd line) (\<lambda>rec.
     try_bind (parse_vcf rnd rest) (\<lambda>recs.
       Inr (case rec of None \<Rightarrow> recs | Some x \<Rightarrow> x # recs)))"





section \<open>Theorems\<close>

lemma try_bind_Inr [simp]: "try_bind (Inr x) f = f x"
  by (simp add: try_bind_def)

lemma try_bind_Inl [simp]: "try_bind (Inl e) f = Inl e"
  by (simp add: try_bind_def)

lemma item_Cons_0 [simp]: "item (x # xs) 0 = Inr x"
  by (simp add: item_def)

lemma item_Cons_Suc [simp]: "item (x # xs) (Suc n) = item xs n"
  by (simp add: item_def)

lemma item_Nil [simp]: "item [] n = Inl IndexError"
  by (simp add: item_def)

lemma tag_NM_cases:
  "tag_NM a = Inl KeyError \<and> \<not> has_NM a \<or> (\<exists>e. tag_NM a = Inr e \<and> has_NM a)"
  by (auto simp: tag_NM_def getitem_def has_NM_def split: option.splits)

subsection \<open>Rounding to binary64\<close>

lemma pow2_powi: "pow2 e = 2 powi e"
  by (simp add: pow2_def power_int_def inverse_eq_divide power_one_over)

lemma pow2_pos: "0 < pow2 e"
  by (simp add: pow2_powi)

lemma pow2_mono: "e \<le> e' \<Longrightarrow> pow2 e \<le> pow2 e'"
  by (simp add: pow2_powi power_int_increasing)

lemma bit_length_0: "bit_length 0 = 0"
  by (simp add: bit_length.simps [of 0])

lemma bit_length_pos: "0 < n \<Longrightarrow> bit_length n = Suc (bit_length (n div 2))"
  by (simp add: bit_length.simps [of n])

lemma bit_length_bounds:
  "0 < n \<Longrightarrow> 2 ^ (bit_length n - 1) \<le> n \<and> n < 2 ^ bit_length n"
proof (induction n rule: bit_length.induct)
  case (1 n)
  show ?case
  proof (cases "n div 2 = 0")
    case True
    with "1.prems" have "n = 1" by (simp add: div_eq_0_iff)
    then show ?thesis by (simp add: bit_length_pos bit_length_0)
  next
    case False
    with "1.prems" "1.IH" have ih: "2 ^ (bit_length (n div 2) - 1) \<le> n div 2"
      "n div 2 < 2 ^ bit_length (n div 2)" by simp_all
    from False have pos: "bit_length (n div 2) > 0" by (simp add: bit_length_pos)
    have bl: "bit_length n = Suc (bit_length (n div 2))"
      using "1.prems" by (rule bit_length_pos)
    from pos have "(2::nat) ^ bit_length (n div 2) = 2 * 2 ^ (bit_length (n div 2) - 1)"
      by (cases "bit_length (n div 2)") simp_all
    with ih(1) have "2 ^ bit_length (n div 2) \<le> 2 * (n div 2)" by simp
    also have "\<dots> \<le> n" by simp
    finally have lo: "2 ^ (bit_length n - 1) \<le> n" by (simp add: bl)
    from ih(2) have "n < 2 * 2 ^ bit_length (n div 2)" by linarith
    then have hi: "n < 2 ^ bit_length n" by (simp add: bl)
    from lo hi show ?thesis ..
  qed
qed

text \<open>\<open>binade\<close> is the exponent of the binade of \<open>x\<close>, and the only one.\<close>

lemma binade_bounds:
  assumes "x \<noteq> 0"
  shows "pow2 (binade x) \<le> \<bar>x\<bar> \<and> \<bar>x\<bar> < pow2 (binade x + 1)"
proof -
  obtain a b where q: "quotient_of \<bar>x\<bar> = (a, b)" by (cases "quotient_of \<bar>x\<bar>") auto
  from quotient_of_denom_pos [OF q] have b: "0 < b" .
  from quotient_of_div [OF q] have x: "\<bar>x\<bar> = of_int a / of_int b" .
  from assms have "0 < \<bar>x\<bar>" by simp
  with x b have a: "0 < a" by (simp add: zero_less_divide_iff)
  define la where "la = bit_length (nat a)"
  define lb where "lb = bit_length (nat b)"
  define d where "d = int la - int lb"
  from a bit_length_bounds [of "nat a"] have na: "2 ^ (la - 1) \<le> nat a" "nat a < 2 ^ la"
    by (simp_all add: la_def)
  from b bit_length_bounds [of "nat b"] have nb: "2 ^ (lb - 1) \<le> nat b" "nat b < 2 ^ lb"
    by (simp_all add: lb_def)
  from a have la_pos: "0 < la" by (simp add: la_def bit_length_pos)
  from b have lb_pos: "0 < lb" by (simp add: lb_def bit_length_pos)
  have ra: "(2 :: rat) ^ (la - 1) \<le> of_int a" "(of_int a :: rat) < 2 ^ la"
  proof -
    from na(1) have "int (2 ^ (la - 1)) \<le> a" using a by linarith
    then have "(of_int (int (2 ^ (la - 1))) :: rat) \<le> of_int a" by (simp only: of_int_le_iff)
    then show "(2 :: rat) ^ (la - 1) \<le> of_int a" by simp
    from na(2) have "a < int (2 ^ la)" using a by linarith
    then have "(of_int a :: rat) < of_int (int (2 ^ la))" by (simp only: of_int_less_iff)
    then show "(of_int a :: rat) < 2 ^ la" by simp
  qed
  have rb: "(2 :: rat) ^ (lb - 1) \<le> of_int b" "(of_int b :: rat) < 2 ^ lb"
  proof -
    from nb(1) have "int (2 ^ (lb - 1)) \<le> b" using b by linarith
    then have "(of_int (int (2 ^ (lb - 1))) :: rat) \<le> of_int b" by (simp only: of_int_le_iff)
    then show "(2 :: rat) ^ (lb - 1) \<le> of_int b" by simp
    from nb(2) have "b < int (2 ^ lb)" using b by linarith
    then have "(of_int b :: rat) < of_int (int (2 ^ lb))" by (simp only: of_int_less_iff)
    then show "(of_int b :: rat) < 2 ^ lb" by simp
  qed
  have bpos: "(0 :: rat) < of_int b" using b by simp
  have lo: "pow2 (d - 1) \<le> \<bar>x\<bar>"
  proof -
    from la_pos have "d - 1 = int (la - 1) - int lb" by (simp add: d_def of_nat_diff)
    then have "pow2 (d - 1) = 2 powi (int (la - 1) - int lb)"
      by (simp only: pow2_powi)
    also have "\<dots> = 2 ^ (la - 1) / 2 ^ lb" by (simp add: power_int_diff)
    also have "\<dots> \<le> of_int a / 2 ^ lb" using ra(1) by (simp add: divide_right_mono)
    also have "\<dots> \<le> of_int a / of_int b"
      using rb(2) bpos a by (intro divide_left_mono) (simp_all add: less_imp_le)
    finally show ?thesis by (simp add: x)
  qed
  have hi: "\<bar>x\<bar> < pow2 (d + 1)"
  proof -
    have "of_int a / of_int b < (2 :: rat) ^ la / of_int b"
      using ra(2) bpos by (simp add: divide_strict_right_mono)
    also have "\<dots> \<le> 2 ^ la / 2 ^ (lb - 1)"
    proof (rule divide_left_mono)
      show "(2 :: rat) ^ (lb - 1) \<le> of_int b" by (rule rb(1))
      show "(0 :: rat) \<le> 2 ^ la" by simp
      from bpos show "(0 :: rat) < of_int b * 2 ^ (lb - 1)" by (intro mult_pos_pos) simp_all
    qed
    also have "\<dots> = 2 powi (int la - int (lb - 1))" by (simp add: power_int_diff)
    also have "\<dots> = pow2 (d + 1)"
    proof -
      from lb_pos have "int la - int (lb - 1) = d + 1" by (simp add: d_def of_nat_diff)
      then show ?thesis by (simp only: pow2_powi)
    qed
    finally show ?thesis by (simp add: x)
  qed
  have bd: "binade x = (if pow2 d \<le> \<bar>x\<bar> then d else d - 1)"
    by (simp add: binade_def q la_def lb_def d_def Let_def)
  show ?thesis
  proof (cases "pow2 d \<le> \<bar>x\<bar>")
    case True
    with hi bd show ?thesis by simp
  next
    case False
    with lo bd show ?thesis by simp
  qed
qed

lemma binade_unique:
  assumes "x \<noteq> 0" and lo: "pow2 e \<le> \<bar>x\<bar>" and hi: "\<bar>x\<bar> < pow2 (e + 1)"
  shows "binade x = e"
proof (rule ccontr)
  assume ne: "binade x \<noteq> e"
  from binade_bounds [OF assms(1)] have b: "pow2 (binade x) \<le> \<bar>x\<bar>" "\<bar>x\<bar> < pow2 (binade x + 1)"
    by simp_all
  show False
  proof (cases "binade x < e")
    case True
    then have "pow2 (binade x + 1) \<le> pow2 e" by (intro pow2_mono) simp
    with b(2) lo show False by simp
  next
    case False
    with ne have "pow2 (e + 1) \<le> pow2 (binade x)" by (intro pow2_mono) simp
    with b(1) hi show False by simp
  qed
qed

lemma round_half_even_nearest:
  assumes "\<bar>x - of_int m\<bar> < 1 / 2"
  shows "round_half_even x = m"
proof (cases "of_int m \<le> x")
  case True
  with assms have "\<lfloor>x\<rfloor> = m" by (intro floor_unique) (simp_all add: abs_less_iff)
  with assms True show ?thesis by (simp add: round_half_even_def Let_def abs_less_iff)
next
  case False
  with assms have "\<lfloor>x\<rfloor> = m - 1" by (intro floor_unique) (simp_all add: abs_less_iff)
  with assms False show ?thesis by (auto simp: round_half_even_def Let_def abs_less_iff)
qed

lemma round_half_even_tie:
  assumes "x = of_int f + 1 / 2"
  shows "round_half_even x = (if even f then f else f + 1)"
proof -
  from assms have "\<lfloor>x\<rfloor> = f" by (intro floor_unique) simp_all
  with assms show ?thesis by (simp add: round_half_even_def Let_def)
qed

text \<open>
  \<open>round_double\<close> from a certificate: the binade \<open>e\<close> of \<open>x\<close> and the integer
  nearest to \<open>x / 2 ^ (e - 52)\<close>, or the two nearest when \<open>x\<close> lies half way.
\<close>

lemma round_double_nearest:
  assumes "x \<noteq> 0" "pow2 e \<le> \<bar>x\<bar>" "\<bar>x\<bar> < pow2 (e + 1)"
    and "\<bar>x / pow2 (e - 52) - of_int m\<bar> < 1 / 2"
  shows "round_double x = of_int m * pow2 (e - 52)"
  using assms(1) binade_unique [OF assms(1-3)] round_half_even_nearest [OF assms(4)]
  by (simp add: round_double_def)

lemma round_double_tie:
  assumes "x \<noteq> 0" "pow2 e \<le> \<bar>x\<bar>" "\<bar>x\<bar> < pow2 (e + 1)"
    and "x / pow2 (e - 52) = of_int f + 1 / 2"
  shows "round_double x = of_int (if even f then f else f + 1) * pow2 (e - 52)"
  using assms(1) binade_unique [OF assms(1-3)] round_half_even_tie [OF assms(4)]
  by (simp add: round_double_def)

lemma rd_1: "round_double (1) = 1"
  by (rule trans [OF round_double_nearest [where e = 0 and m = 4503599627370496]])
    (simp_all add: pow2_def tenth_def fifth_def three_tenths_def tenth_plus_fifth_def
      six_tenths_def six_tenths_up_def)

lemma rd_2: "round_double (2) = 2"
  by (rule trans [OF round_double_nearest [where e = 1 and m = 4503599627370496]])
    (simp_all add: pow2_def tenth_def fifth_def three_tenths_def tenth_plus_fifth_def
      six_tenths_def six_tenths_up_def)

lemma rd_3: "round_double (3) = 3"
  by (rule trans [OF round_double_nearest [where e = 1 and m = 6755399441055744]])
    (simp_all add: pow2_def tenth_def fifth_def three_tenths_def tenth_plus_fifth_def
      six_tenths_def six_tenths_up_def)

lemma rd_100: "round_double (100) = 100"
  by (rule trans [OF round_double_nearest [where e = 6 and m = 7036874417766400]])
    (simp_all add: pow2_def tenth_def fifth_def three_tenths_def tenth_plus_fifth_def
      six_tenths_def six_tenths_up_def)

lemma rd_200: "round_double (200) = 200"
  by (rule trans [OF round_double_nearest [where e = 7 and m = 7036874417766400]])
    (simp_all add: pow2_def tenth_def fifth_def three_tenths_def tenth_plus_fifth_def
      six_tenths_def six_tenths_up_def)

lemma rd_300: "round_double (300) = 300"
  by (rule trans [OF round_double_nearest [where e = 8 and m = 5277655813324800]])
    (simp_all add: pow2_def tenth_def fifth_def three_tenths_def tenth_plus_fifth_def
      six_tenths_def six_tenths_up_def)

lemma rd_1000: "round_double (1000) = 1000"
  by (rule trans [OF round_double_nearest [where e = 9 and m = 8796093022208000]])
    (simp_all add: pow2_def tenth_def fifth_def three_tenths_def tenth_plus_fifth_def
      six_tenths_def six_tenths_up_def)

lemma rd_1_10: "round_double (1 / 10) = tenth"
  by (rule trans [OF round_double_nearest [where e = "- 4" and m = 7205759403792794]])
    (simp_all add: pow2_def tenth_def fifth_def three_tenths_def tenth_plus_fifth_def
      six_tenths_def six_tenths_up_def)

lemma rd_1_5: "round_double (1 / 5) = fifth"
  by (rule trans [OF round_double_nearest [where e = "- 3" and m = 7205759403792794]])
    (simp_all add: pow2_def tenth_def fifth_def three_tenths_def tenth_plus_fifth_def
      six_tenths_def six_tenths_up_def)

lemma rd_3_10: "round_double (3 / 10) = three_tenths"
  by (rule trans [OF round_double_nearest [where e = "- 2" and m = 5404319552844595]])
    (simp_all add: pow2_def tenth_def fifth_def three_tenths_def tenth_plus_fifth_def
      six_tenths_def six_tenths_up_def)

lemma rd_tenth: "round_double (tenth) = tenth"
  by (rule trans [OF round_double_nearest [where e = "- 4" and m = 7205759403792794]])
    (simp_all add: pow2_def tenth_def fifth_def three_tenths_def tenth_plus_fifth_def
      six_tenths_def six_tenths_up_def)

lemma rd_fifth: "round_double (fifth) = fifth"
  by (rule trans [OF round_double_nearest [where e = "- 3" and m = 7205759403792794]])
    (simp_all add: pow2_def tenth_def fifth_def three_tenths_def tenth_plus_fifth_def
      six_tenths_def six_tenths_up_def)

lemma rd_three_tenths: "round_double (three_tenths) = three_tenths"
  by (rule trans [OF round_double_nearest [where e = "- 2" and m = 5404319552844595]])
    (simp_all add: pow2_def tenth_def fifth_def three_tenths_def tenth_plus_fifth_def
      six_tenths_def six_tenths_up_def)

lemma rd_tenth_fifth: "round_double (tenth + fifth) = tenth_plus_fifth"
  by (rule trans [OF round_double_tie [where e = "- 2" and f = 5404319552844595]])
    (simp_all add: pow2_def tenth_def fifth_def three_tenths_def tenth_plus_fifth_def
      six_tenths_def six_tenths_up_def)

lemma rd_sum_forward: "round_double (tenth_plus_fifth + three_tenths) = six_tenths_up"
  by (rule trans [OF round_double_tie [where e = "- 1" and f = 5404319552844595]])
    (simp_all add: pow2_def tenth_def fifth_def three_tenths_def tenth_plus_fifth_def
      six_tenths_def six_tenths_up_def)

lemma rd_three_tenths_fifth: "round_double (three_tenths + fifth) = 1 / 2"
  by (rule trans [OF round_double_nearest [where e = "- 1" and m = 4503599627370496]])
    (simp_all add: pow2_def tenth_def fifth_def three_tenths_def tenth_plus_fifth_def
      six_tenths_def six_tenths_up_def)

lemma rd_fifth_three_tenths: "round_double (fifth + three_tenths) = 1 / 2"
  by (rule trans [OF round_double_nearest [where e = "- 1" and m = 4503599627370496]])
    (simp_all add: pow2_def tenth_def fifth_def three_tenths_def tenth_plus_fifth_def
      six_tenths_def six_tenths_up_def)

lemma rd_half_tenth: "round_double (1 / 2 + tenth) = six_tenths"
  by (rule trans [OF round_double_nearest [where e = "- 1" and m = 5404319552844595]])
    (simp_all add: pow2_def tenth_def fifth_def three_tenths_def tenth_plus_fifth_def
      six_tenths_def six_tenths_up_def)

lemma rd_tenth_half: "round_double (tenth + 1 / 2) = six_tenths"
  by (rule trans [OF round_double_nearest [where e = "- 1" and m = 5404319552844595]])
    (simp_all add: pow2_def tenth_def fifth_def three_tenths_def tenth_plus_fifth_def
      six_tenths_def six_tenths_up_def)

text \<open>
  A rational \<open>m / 2 ^ k\<close> with \<open>\<bar>m\<bar> < 2 ^ 53\<close> is a binary64 value, in particular
  every integer below \<open>2 ^ 53\<close> in magnitude: rounding leaves it as it is.
\<close>

lemma round_half_even_of_int: "round_half_even (of_int j) = j"
  using round_half_even_nearest [of "of_int j" j] by simp

lemma round_double_dyadic:
  assumes "\<bar>m\<bar> < 2 ^ 53"
  shows "round_double (of_int m / 2 ^ k) = of_int m / 2 ^ k"
proof (cases "m = 0")
  case True
  then show ?thesis by (simp add: round_double_def)
next
  case False
  define x :: rat where "x = of_int m / 2 ^ k"
  define e where "e = binade x"
  have x0: "x \<noteq> 0" using False by (simp add: x_def)
  from binade_bounds [OF x0] have lo: "pow2 e \<le> \<bar>x\<bar>" by (simp add: e_def)
  from assms have "(of_int \<bar>m\<bar> :: rat) < of_int (2 ^ 53)" by (simp only: of_int_less_iff)
  then have "\<bar>of_int m :: rat\<bar> < 2 ^ 53" by simp
  then have "\<bar>x\<bar> < 2 ^ 53 / 2 ^ k" by (simp add: x_def divide_strict_right_mono)
  also have "\<dots> = pow2 (53 - int k)" by (simp add: pow2_powi power_int_diff)
  finally have hi: "\<bar>x\<bar> < pow2 (53 - int k)" .
  have e: "e < 53 - int k"
  proof (rule ccontr)
    assume "\<not> e < 53 - int k"
    then have "pow2 (53 - int k) \<le> pow2 e" by (intro pow2_mono) simp
    with lo hi show False by simp
  qed
  define j where "j = nat (52 - e - int k)"
  from e have j: "int j = 52 - e - int k" by (simp add: j_def)
  have "pow2 (e - 52) * 2 ^ k * 2 ^ j = 2 powi (e - 52) * 2 powi (int k) * 2 powi (int j)"
    by (simp add: pow2_powi)
  also have "\<dots> = 2 powi (e - 52 + int k + int j)" by (simp add: power_int_add)
  also have "\<dots> = (1 :: rat)" by (simp add: j)
  finally have p: "pow2 (e - 52) * 2 ^ k * 2 ^ j = 1" .
  have pp: "pow2 (e - 52) \<noteq> 0" using pow2_pos [of "e - 52"] by simp
  have "x / pow2 (e - 52) = of_int m * 2 ^ j"
  proof -
    have "of_int m * 2 ^ j * pow2 (e - 52) = (of_int m / 2 ^ k) * (pow2 (e - 52) * 2 ^ k * 2 ^ j)"
      by simp
    also have "\<dots> = x" by (simp only: p x_def mult_1_right)
    finally show ?thesis using pp by (simp add: field_simps)
  qed
  then have q: "x / pow2 (e - 52) = of_int (m * 2 ^ j)" by simp
  have r: "round_half_even (x / pow2 (e - 52)) = m * 2 ^ j"
    by (simp only: q round_half_even_of_int)
  have "round_double x = of_int (m * 2 ^ j) * pow2 (e - 52)"
    using x0 r by (simp add: round_double_def e_def)
  also have "\<dots> = x / pow2 (e - 52) * pow2 (e - 52)" by (simp only: q)
  also have "\<dots> = x" using pp by simp
  finally show ?thesis by (simp only: x_def)
qed

lemma round_double_int: "\<bar>n\<bar> < 2 ^ 53 \<Longrightarrow> round_double (of_int n) = of_int n"
  using round_double_dyadic [of n 0] by simp


lemma round_double_numeral:
  "(numeral w :: int) < 2 ^ 53 \<Longrightarrow> round_double (numeral w) = numeral w"
  using round_double_int [of "numeral w"] by simp

lemma round_double_half:
  "(numeral w :: int) < 2 ^ 53 \<Longrightarrow> round_double (numeral w / 2) = numeral w / 2"
  using round_double_dyadic [of "numeral w" 1] by simp

text \<open>The doubles nearest to 200/3, 9/10 and 301/3.\<close>

lemma rd_200_3: "round_double (200 / 3) = 4691249611844267 / 2 ^ 46"
  by (rule trans [OF round_double_nearest [where e = 6 and m = 4691249611844267]])
    (simp_all add: pow2_def)


lemma rd_301_3: "round_double (301 / 3) = 7060330665825621 / 2 ^ 46"
  by (rule trans [OF round_double_nearest [where e = 6 and m = 7060330665825621]])
    (simp_all add: pow2_def)

subsection \<open>Scores and percent identity\<close>

text \<open>
  Claim C3. For a unit whose first record \<open>r0\<close> is unpaired or has its mate
  unmapped, and carries the edit distance \<open>e\<close> in its \<^verbatim>\<open>NM\<close> tag,
  \<open>compute_aln_score\<close> returns \<open>query_length r0 - e\<close> and, the length being nonzero,
  \<open>compute_perc_id\<close> returns the float quotient of \<open>100 * (query_length r0 - e)\<close> by
  \<open>query_length r0\<close>: both integers converted to floats, and their quotient rounded.
  For a full pair \<open>[m1, m2]\<close> the score is the sum of both mates'
  \<open>query_length - e\<close>, and the percent identity is that float quotient over the summed
  lengths and summed edit distances. This holds for every rounding \<open>rnd\<close>. The
  witness is in binary64: the specification's example, two mates of length 100 with 2
  and 3 edits, scores 195 at 97.5 percent, and a read of length 3 with one edit has
  percent identity 66.66666666666667, the double nearest to 200/3.
\<close>

theorem compute_score_and_identity:
  "(item u 0 = Inr r0 \<and> (\<not> is_paired r0 \<or> mate_is_unmapped r0) \<and> tag_NM r0 = Inr e \<longrightarrow>
      compute_aln_score u = Inr (query_length r0 - e) \<and>
      (query_length r0 \<noteq> 0 \<longrightarrow>
         compute_perc_id rnd u =
           Inr (rnd (rnd (of_int (100 * (query_length r0 - e)))
                 / rnd (of_int (query_length r0))))))
   \<and> (is_paired m1 \<and> \<not> mate_is_unmapped m1 \<and> tag_NM m1 = Inr e1 \<and> tag_NM m2 = Inr e2 \<longrightarrow>
      compute_aln_score [m1, m2] = Inr ((query_length m1 - e1) + (query_length m2 - e2)) \<and>
      (query_length m1 + query_length m2 \<noteq> 0 \<longrightarrow>
         compute_perc_id rnd [m1, m2] =
           Inr (rnd (rnd (of_int (100 * ((query_length m1 + query_length m2) - (e1 + e2))))
                 / rnd (of_int (query_length m1 + query_length m2))))))"
  by (auto simp: compute_aln_score_def compute_perc_id_def perc_id_of_def)

theorem compute_score_and_identity_witness:
  "compute_aln_score [example_single] = Inr 95
   \<and> compute_perc_id round_double [example_single] = Inr 95
   \<and> compute_aln_score [example_mate1, example_mate2] = Inr 195
   \<and> compute_perc_id round_double [example_mate1, example_mate2] = Inr (195 / 2)
   \<and> compute_aln_score [short_read] = Inr 2
   \<and> compute_perc_id round_double [short_read] = Inr (4691249611844267 / 2 ^ 46)"
proof -
  have s: "item [example_single] 0 = Inr example_single" by simp
  have f: "\<not> is_paired example_single" "tag_NM example_single = Inr 5"
    "query_length example_single = 100"
    by (simp_all add: example_single_def tag_NM_def getitem_def)
  have p: "is_paired example_mate1" "\<not> mate_is_unmapped example_mate1"
    "tag_NM example_mate1 = Inr 2" "tag_NM example_mate2 = Inr 3"
    "query_length example_mate1 = 100" "query_length example_mate2 = 100"
    by (simp_all add: example_mate1_def example_mate2_def tag_NM_def getitem_def)
  have t: "item [short_read] 0 = Inr short_read" by simp
  have g: "\<not> is_paired short_read" "tag_NM short_read = Inr 1" "query_length short_read = 3"
    by (simp_all add: short_read_def tag_NM_def getitem_def)
  from compute_score_and_identity [where u = "[example_single]" and ?r0.0 = example_single
      and e = 5 and ?m1.0 = example_mate1 and ?e1.0 = 2 and ?m2.0 = example_mate2
      and ?e2.0 = 3 and rnd = round_double]
  have 1: "compute_aln_score [example_single] = Inr 95
    \<and> compute_perc_id round_double [example_single] = Inr 95
    \<and> compute_aln_score [example_mate1, example_mate2] = Inr 195
    \<and> compute_perc_id round_double [example_mate1, example_mate2] = Inr (195 / 2)"
    using s f p by (simp add: round_double_numeral round_double_half)
  from compute_score_and_identity [where u = "[short_read]" and ?r0.0 = short_read
      and e = 1 and ?m1.0 = example_mate1 and ?e1.0 = 2 and ?m2.0 = example_mate2
      and ?e2.0 = 3 and rnd = round_double]
  have 2: "compute_aln_score [short_read] = Inr 2
    \<and> compute_perc_id round_double [short_read] = Inr (4691249611844267 / 2 ^ 46)"
    using t g by (simp add: round_double_numeral rd_200_3)
  from 1 2 show ?thesis by simp
qed

text \<open>
  In binary64, for lengths whose products with 100 stay below \<open>2 ^ 53\<close>, the two
  integers convert exactly, and the percent identity returned is the double nearest
  to the exact quotient.
\<close>

lemma perc_id_nearest_double:
  assumes "len \<noteq> 0" "\<bar>100 * (len - edit)\<bar> < 2 ^ 53" "\<bar>len\<bar> < 2 ^ 53"
  shows "perc_id_of round_double len edit
    = Inr (round_double (of_int (100 * (len - edit)) / of_int len))"
  using assms by (simp only: perc_id_of_def round_double_int if_False)

text \<open>
  Claim C8. \<open>compute_perc_id\<close> has no branch for a zero length: on every unit whose
  records and \<^verbatim>\<open>NM\<close> tags it can read and whose total query length is 0, the
  division raises \<^verbatim>\<open>ZeroDivisionError\<close>, whatever the rounding. The witness is an unpaired record of
  length 0.
\<close>

theorem compute_perc_id_zero_length:
  "readable u \<Longrightarrow> total_query_length u = 0 \<Longrightarrow> compute_perc_id rnd u = Inl ZeroDivisionError"
  using tag_NM_cases [of "hd u"] tag_NM_cases [of "hd (tl u)"]
  by (auto simp: compute_perc_id_def total_query_length_def perc_id_of_def readable_def
      split: list.splits if_splits)

theorem compute_perc_id_zero_length_witness:
  "readable [zero_length_read] \<and> total_query_length [zero_length_read] = 0
   \<and> compute_perc_id round_double [zero_length_read] = Inl ZeroDivisionError"
proof -
  have a: "readable [zero_length_read]"
    by (simp add: readable_def zero_length_read_def has_NM_def)
  have b: "total_query_length [zero_length_read] = 0"
    by (simp add: total_query_length_def zero_length_read_def)
  show ?thesis using a b compute_perc_id_zero_length [OF a b] by simp
qed

subsection \<open>Units read from an alignment file\<close>

lemma not_buffered: "buffered a = (\<not> yielded_alone a)"
  by (auto simp: buffered_def yielded_alone_def)

lemma fetch_reads_loop_step:
  "fetch_reads_loop buf (a # s) =
     (if yielded_alone a then [a] # fetch_reads_loop buf s
      else if length buf = 1 then (buf @ [a]) # fetch_reads_loop [] s
      else fetch_reads_loop (buf @ [a]) s)"
  by (auto simp: yielded_alone_def Let_def)

lemma loop_singles:
  "length buf \<le> 1 \<Longrightarrow>
   filter (\<lambda>u. length u = 1) (fetch_reads_loop buf s) = map (\<lambda>a. [a]) (filter yielded_alone s)"
proof (induction s arbitrary: buf)
  case Nil
  then show ?case by simp
next
  case (Cons a s)
  show ?case
  proof (cases "yielded_alone a")
    case True
    then show ?thesis using Cons by (simp add: fetch_reads_loop_step del: fetch_reads_loop.simps)
  next
    case False
    show ?thesis
    proof (cases "length buf = 1")
      case True
      with False Cons.IH [of "[]"] show ?thesis
        by (simp add: fetch_reads_loop_step del: fetch_reads_loop.simps)
    next
      case False
      with Cons.prems have "buf = []" by (cases buf) auto
      with \<open>\<not> yielded_alone a\<close> Cons.IH [of "[a]"] show ?thesis
        by (simp add: fetch_reads_loop_step del: fetch_reads_loop.simps)
    qed
  qed
qed

lemma loop_pairs:
  "length buf \<le> 1 \<Longrightarrow>
   filter (\<lambda>u. length u \<noteq> 1) (fetch_reads_loop buf s) = pairs_of (buf @ filter buffered s)"
proof (induction s arbitrary: buf)
  case Nil
  then show ?case by (cases buf) (auto simp: le_Suc_eq)
next
  case (Cons a s)
  show ?case
  proof (cases "yielded_alone a")
    case True
    then show ?thesis using Cons by (simp add: fetch_reads_loop_step not_buffered del: fetch_reads_loop.simps)
  next
    case False
    show ?thesis
    proof (cases "length buf = 1")
      case True
      then obtain b where "buf = [b]" by (cases buf) auto
      with False Cons.IH [of "[]"] show ?thesis
        by (simp add: fetch_reads_loop_step not_buffered del: fetch_reads_loop.simps)
    next
      case False
      with Cons.prems have "buf = []" by (cases buf) auto
      with \<open>\<not> yielded_alone a\<close> Cons.IH [of "[a]"] show ?thesis
        by (simp add: fetch_reads_loop_step not_buffered del: fetch_reads_loop.simps)
    qed
  qed
qed

lemma concat_pairs_of: "concat (pairs_of xs) = take (2 * (length xs div 2)) xs"
  by (induction xs rule: pairs_of.induct) auto

lemma pairs_of_shape: "u \<in> set (pairs_of xs) \<Longrightarrow> \<exists>a b. u = [a, b] \<and> a \<in> set xs \<and> b \<in> set xs"
  by (induction xs rule: pairs_of.induct) auto

lemma fetch_singles:
  "filter (\<lambda>u. length u = 1) (fetch_reads f) = map (\<lambda>a. [a]) (filter yielded_alone (fetch f))"
  using loop_singles [of "[]" "fetch f"] by (simp add: fetch_reads_def)

lemma fetch_pairs:
  "filter (\<lambda>u. length u \<noteq> 1) (fetch_reads f) = pairs_of (filter buffered (fetch f))"
  using loop_pairs [of "[]" "fetch f"] by (simp add: fetch_reads_def)

lemma unit_cases:
  assumes "u \<in> set (fetch_reads f)"
  shows "(\<exists>a. u = [a] \<and> a \<in> set (fetch f) \<and> yielded_alone a)
       \<or> (\<exists>a b. u = [a, b] \<and> a \<in> set (fetch f) \<and> b \<in> set (fetch f) \<and> buffered a \<and> buffered b)"
proof (cases "length u = 1")
  case True
  have "set (filter (\<lambda>u. length u = 1) (fetch_reads f))
      = set (map (\<lambda>a. [a]) (filter yielded_alone (fetch f)))"
    by (simp only: fetch_singles)
  with assms True show ?thesis by auto
next
  case False
  have "set (filter (\<lambda>u. length u \<noteq> 1) (fetch_reads f))
      = set (pairs_of (filter buffered (fetch f)))"
    by (simp only: fetch_pairs)
  with assms False have "u \<in> set (pairs_of (filter buffered (fetch f)))" by auto
  from pairs_of_shape [OF this] show ?thesis by auto
qed

lemma units_yielded: "list_all unit_as_yielded (fetch_reads f)"
  unfolding list_all_iff
proof
  fix u assume "u \<in> set (fetch_reads f)"
  from unit_cases [OF this] show "unit_as_yielded u"
    by (auto simp: unit_as_yielded_def)
qed

lemma as_specified:
  assumes "list_all (\<lambda>a. is_paired a \<and> mate_is_unmapped a \<longrightarrow> is_read1 a \<or> is_read2 a) (fetch f)"
  shows "list_all unit_as_specified (fetch_reads f)"
  unfolding list_all_iff
proof
  fix u assume "u \<in> set (fetch_reads f)"
  from unit_cases [OF this] assms show "unit_as_specified u"
    by (auto simp: unit_as_specified_def mapped_mate_pair_def yielded_alone_def buffered_def
        list_all_iff)
qed

text \<open>
  What the loop yields. Every unit \<open>fetch_reads\<close> yields is one record that
  is unpaired or is a mate-unmapped first or second read, or two buffered records,
  a buffered record being a paired one that is not a mate-unmapped first or second
  read. The one-record units are the records yielded alone, in stream order; the
  two-record units are the buffered records taken two at a time in stream order, so
  the records of a unit are consecutive among the buffered ones; a buffered record
  left over at the end of the stream is in no unit. Where every paired record with
  an unmapped mate is flagged first or second read, the buffered records are the
  paired records with a mapped mate and every unit has the shape the specification
  gives: one record that is unpaired or has its mate unmapped, or two paired records
  with mapped mates.
\<close>

lemma fetch_reads_units:
  "list_all unit_as_yielded (fetch_reads f)
   \<and> filter (\<lambda>u. length u = 1) (fetch_reads f) = map (\<lambda>a. [a]) (filter yielded_alone (fetch f))
   \<and> filter (\<lambda>u. length u \<noteq> 1) (fetch_reads f) = pairs_of (filter buffered (fetch f))
   \<and> concat (filter (\<lambda>u. length u \<noteq> 1) (fetch_reads f))
       = take (2 * (length (filter buffered (fetch f)) div 2)) (filter buffered (fetch f))
   \<and> (list_all (\<lambda>a. is_paired a \<and> mate_is_unmapped a \<longrightarrow> is_read1 a \<or> is_read2 a) (fetch f)
        \<longrightarrow> list_all unit_as_specified (fetch_reads f))"
  using units_yielded [of f] as_specified [of f] fetch_singles [of f] fetch_pairs [of f]
    concat_pairs_of [of "filter buffered (fetch f)"]
  by simp

lemma ex_flags [simp]:
  "is_paired example_mate1" "\<not> mate_is_unmapped example_mate1"
  "is_paired example_mate2" "\<not> mate_is_unmapped example_mate2"
  "\<not> is_paired example_single"
  "is_paired unplaced_mate" "mate_is_unmapped unplaced_mate" "\<not> is_read1 unplaced_mate" "\<not> is_read2 unplaced_mate"
  by (simp_all add: example_mate1_def example_mate2_def example_single_def unplaced_mate_def)

lemma fetch_reads_units_example:
  "fetch_reads example_file = [[example_single], [example_mate1, example_mate2]]
   \<and> filter buffered (fetch example_file) = [example_mate1, example_mate2, example_mate1]
   \<and> list_all unit_as_specified (fetch_reads example_file)"
proof -
  have e: "fetch_reads example_file = [[example_single], [example_mate1, example_mate2]]"
    by (simp add: fetch_reads_def example_file_def)
  have b: "filter buffered (fetch example_file) = [example_mate1, example_mate2, example_mate1]"
    by (simp add: example_file_def yielded_alone_def not_buffered)
  have h: "list_all (\<lambda>a. is_paired a \<and> mate_is_unmapped a \<longrightarrow> is_read1 a \<or> is_read2 a) (fetch example_file)"
    by (simp add: example_file_def)
  from fetch_reads_units [of example_file] h have "list_all unit_as_specified (fetch_reads example_file)"
    by blast
  with e b show ?thesis by simp
qed

text \<open>
  Claim C10. Every unit \<open>fetch_reads\<close> yields should be one record that is unpaired
  or has its mate unmapped, or two consecutive paired records with mapped mates. The
  loop yields a mate-unmapped record alone only if it is flagged first or second read,
  and buffers it otherwise: on a stream of two paired records whose mates are unmapped
  and which are flagged neither first nor second read, it yields both as one unit of
  two mate-unmapped records, which is none of the units of the claim. Such a unit is
  then scored as the single mate-unmapped record the claim expects:
  \<open>compute_aln_score\<close> and \<open>compute_perc_id\<close> read its first record only, and the
  second record is never scored.
\<close>

theorem fetch_reads_unplaced_pair:
  "fetch unplaced_file = [unplaced_mate, unplaced_mate]
   \<and> is_paired unplaced_mate \<and> mate_is_unmapped unplaced_mate
   \<and> \<not> mapped_mate_pair unplaced_mate
   \<and> fetch_reads unplaced_file = [[unplaced_mate, unplaced_mate]]
   \<and> compute_aln_score [unplaced_mate, unplaced_mate] = compute_aln_score [unplaced_mate]
   \<and> compute_perc_id round_double [unplaced_mate, unplaced_mate]
       = compute_perc_id round_double [unplaced_mate]"
  by (simp add: fetch_reads_def unplaced_file_def mapped_mate_pair_def
      compute_aln_score_def compute_perc_id_def)

text \<open>The unit yielded has none of the shapes the specification gives.\<close>

lemma unplaced_pair_not_as_specified:
  "\<not> list_all unit_as_specified (fetch_reads unplaced_file)"
  by (simp add: fetch_reads_def unplaced_file_def unit_as_specified_def mapped_mate_pair_def)

subsection \<open>Best hits\<close>

text \<open>The loops of \<open>find_best_hits\<close>, when they return, have folded \<open>store_hit\<close>
  over the tuples of \<open>observations\<close>.\<close>

lemma pe_read_step_fold:
  "pe_read_step rnd a tm c f u st = Inr st' \<Longrightarrow>
   fst st' = fold (store_observation (pid a)) (observation rnd a tm c f u) (fst st)"
  by (auto simp: pe_read_step_def parse_pe_read_def observation_def store_observation_def
      try_bind_def split: sum.splits if_splits bool.splits)

lemma pe_read_loop_fold:
  "pe_read_loop rnd a tm c f us st = Inr st' \<Longrightarrow>
   fst st' = fold (store_observation (pid a)) (concat (map (observation rnd a tm c f) us)) (fst st)"
proof (induction us arbitrary: st)
  case Nil
  then show ?case by simp
next
  case (Cons u us)
  from Cons.prems obtain st1 where s1: "pe_read_step rnd a tm c f u st = Inr st1"
    and s2: "pe_read_loop rnd a tm c f us st1 = Inr st'"
    by (auto simp: try_bind_def split: sum.splits)
  from Cons.IH [OF s2] pe_read_step_fold [OF s1] show ?case by simp
qed

lemma cluster_loop_fold:
  "cluster_loop rnd a tm cs st = Inr st' \<Longrightarrow>
   fst st' = fold (store_observation (pid a)) (observations rnd a tm cs) (fst st)"
proof (induction cs arbitrary: st)
  case Nil
  then show ?case by (simp add: observations_def)
next
  case (Cons c cs)
  show ?case
  proof (cases "bam a c")
    case None
    with Cons show ?thesis by (simp add: observations_def)
  next
    case (Some f)
    with Cons.prems obtain st1 where s1: "pe_read_loop rnd a tm c f (fetch_reads f) st = Inr st1"
      and s2: "cluster_loop rnd a tm cs st1 = Inr st'"
      by (auto simp: try_bind_def split: sum.splits)
    from Cons.IH [OF s2] pe_read_loop_fold [OF s1] Some show ?thesis
      by (simp add: observations_def)
  qed
qed

lemma best_of_empty: "best_of {} []"
  by (simp add: best_of_def best_for_def)

lemma store_hit_other:
  "q' \<noteq> q \<Longrightarrow> map_of (store_hit pid_min c u q sc p bh) q' = map_of bh q'"
  by (simp add: store_hit_def update_conv' split: option.splits)

lemma store_hit_distinct:
  "distinct (map fst bh) \<Longrightarrow> distinct (map fst (store_hit pid_min c u q sc p bh))"
  by (simp add: store_hit_def distinct_update split: option.splits)

lemma store_hit_filtered: "p < pid_min \<Longrightarrow> store_hit pid_min c u q sc p bh = bh"
  by (simp add: store_hit_def)

lemma store_hit_new:
  "pid_min \<le> p \<Longrightarrow> map_of bh q = None \<Longrightarrow>
   map_of (store_hit pid_min c u q sc p bh) q = Some \<lparr>score = sc, aln = [(c, u)]\<rparr>"
  by (simp add: store_hit_def update_conv')

lemma store_hit_better:
  "pid_min \<le> p \<Longrightarrow> map_of bh q = Some h \<Longrightarrow> score h < sc \<Longrightarrow>
   map_of (store_hit pid_min c u q sc p bh) q = Some \<lparr>score = sc, aln = [(c, u)]\<rparr>"
  by (simp add: store_hit_def update_conv')

lemma store_hit_tie:
  "pid_min \<le> p \<Longrightarrow> map_of bh q = Some h \<Longrightarrow> sc = score h \<Longrightarrow>
   map_of (store_hit pid_min c u q sc p bh) q = Some (h\<lparr>aln := AList.update c u (aln h)\<rparr>)"
  by (simp add: store_hit_def update_conv')

lemma store_hit_worse:
  "map_of bh q = Some h \<Longrightarrow> sc < score h \<Longrightarrow> store_hit pid_min c u q sc p bh = bh"
  by (simp add: store_hit_def)

lemma best_for_other:
  "q' \<noteq> q \<Longrightarrow> best_for (insert (q, ob) S) q' ho = best_for S q' ho"
  by (cases ob) (simp add: best_for_def split: option.splits)

lemma best_for_new:
  "best_for S q None \<Longrightarrow> best_for (insert (q, c, sc, p, u) S) q (Some \<lparr>score = sc, aln = [(c, u)]\<rparr>)"
  by (auto simp: best_for_def)

lemma best_for_better:
  "best_for S q (Some h) \<Longrightarrow> score h < sc \<Longrightarrow>
   best_for (insert (q, c, sc, p, u) S) q (Some \<lparr>score = sc, aln = [(c, u)]\<rparr>)"
  by (fastforce simp: best_for_def)

lemma best_for_tie:
  "best_for S q (Some h) \<Longrightarrow>
   best_for (insert (q, c, score h, p, u) S) q (Some (h\<lparr>aln := AList.update c u (aln h)\<rparr>))"
  unfolding best_for_def
  by (auto simp add: distinct_update update_conv' dom_update)

lemma best_for_worse:
  "best_for S q (Some h) \<Longrightarrow> sc < score h \<Longrightarrow> best_for (insert (q, c, sc, p, u) S) q (Some h)"
  by (fastforce simp: best_for_def)

lemma best_of_step:
  assumes inv: "best_of S bh" and pass: "pid_min \<le> p"
  shows "best_of (insert (q, c, sc, p, u) S) (store_hit pid_min c u q sc p bh)"
proof -
  let ?bh = "store_hit pid_min c u q sc p bh"
  let ?S = "insert (q, c, sc, p, u) S"
  from inv have d: "distinct (map fst ?bh)" by (simp add: best_of_def store_hit_distinct)
  from inv have b: "best_for S q' (map_of bh q')" for q' by (simp add: best_of_def)
  have "best_for ?S q' (map_of ?bh q')" for q'
  proof (cases "q' = q")
    case False
    with b [of q'] show ?thesis by (simp add: store_hit_other best_for_other)
  next
    case True
    show ?thesis
    proof (cases "map_of bh q")
      case None
      with b [of q] True pass show ?thesis by (simp add: store_hit_new best_for_new)
    next
      case (Some h)
      consider "score h < sc" | "sc = score h" | "sc < score h" by linarith
      then show ?thesis
      proof cases
        case 1
        with b [of q] True Some pass show ?thesis by (simp add: store_hit_better best_for_better)
      next
        case 2
        with b [of q] True Some pass show ?thesis by (simp add: store_hit_tie best_for_tie)
      next
        case 3
        with b [of q] True Some pass show ?thesis by (simp add: store_hit_worse best_for_worse)
      qed
    qed
  qed
  with d show ?thesis by (simp add: best_of_def)
qed

lemma best_of_fold:
  "best_of S bh \<Longrightarrow>
   best_of (S \<union> set (passing pid_min obs)) (fold (store_observation pid_min) obs bh)"
proof (induction obs arbitrary: S bh)
  case Nil
  then show ?case by (simp add: passing_def)
next
  case (Cons ob obs)
  obtain q c sc p u where ob: "ob = (q, c, sc, p, u)" by (cases ob) auto
  show ?case
  proof (cases "pid_min \<le> p")
    case True
    from best_of_step [OF Cons.prems True]
    have "best_of (insert ob S) (store_observation pid_min ob bh)"
      by (simp add: ob store_observation_def)
    from Cons.IH [OF this] True show ?thesis by (simp add: ob passing_def)
  next
    case False
    then have "store_observation pid_min ob bh = bh"
      by (simp add: ob store_observation_def store_hit_filtered)
    with Cons.IH [OF Cons.prems] False show ?thesis by (simp add: ob passing_def)
  qed
qed

lemma cluster_loop_best:
  assumes "cluster_loop rnd a tm cs ([], []) = Inr st"
  shows "best_of (set (passing (pid a) (observations rnd a tm cs))) (fst st)"
  using best_of_fold [OF best_of_empty, of "pid a" "observations rnd a tm cs"]
    cluster_loop_fold [OF assms] by simp

lemma resolve_hit_single:
  "aln h = [(c, u)] \<Longrightarrow> resolve_hit draw ab q h = Inr (Assigned c u)"
  by (simp add: resolve_hit_def)

lemma resolve_loop_entries:
  "resolve_loop draw ab items acc = Inr res \<Longrightarrow> distinct (map fst items) \<Longrightarrow>
   (case map_of items q of
      None \<Rightarrow> map_of res q = map_of acc q
    | Some h \<Rightarrow> \<exists>v. resolve_hit draw ab q h = Inr v \<and> map_of res q = Some v)"
proof (induction items arbitrary: acc)
  case Nil
  then show ?case by simp
next
  case (Cons it items)
  obtain q0 h0 where it: "it = (q0, h0)" by (cases it) auto
  from Cons.prems(1) obtain v where v: "resolve_hit draw ab q0 h0 = Inr v"
    and rest: "resolve_loop draw ab items (AList.update q0 v acc) = Inr res"
    by (auto simp: it try_bind_def split: sum.splits)
  from Cons.prems(2) have d: "distinct (map fst items)" and n: "q0 \<notin> fst ` set items"
    by (auto simp: it)
  from n have none: "map_of items q0 = None" by (simp add: map_of_eq_None_iff)
  from Cons.IH [OF rest d] show ?case
    using v none by (auto simp: it update_conv' split: option.splits)
qed

lemma resolve_ties_entries:
  assumes "resolve_ties draw bh ab = Inr res" and "distinct (map fst bh)"
  shows "case map_of bh q of
      None \<Rightarrow> map_of res q = None
    | Some h \<Rightarrow> \<exists>v. resolve_hit draw ab q h = Inr v \<and> map_of res q = Some v"
proof -
  have "map_of (map (\<lambda>(query, rec). (query, Unresolved rec)) bh) q = None"
    if "map_of bh q = None"
    using that by (induction bh) (auto split: if_splits)
  with resolve_loop_entries [OF assms [unfolded resolve_ties_def], of q]
  show ?thesis by (auto split: option.splits)
qed

lemma find_best_hits_parts:
  assumes "find_best_hits rnd draw a gcs tm = Inr (res, rm)"
  obtains bh where "cluster_loop rnd a tm (map fst gcs) ([], []) = Inr (bh, rm)"
    and "resolve_ties draw bh gcs = Inr res"
  using assms by (auto simp: find_best_hits_def try_bind_def split: sum.splits)

lemma best_for_member:
  "best_for S q (Some h) \<Longrightarrow> map_of (aln h) c = Some u \<Longrightarrow> \<exists>p. (q, c, score h, p, u) \<in> S"
  by (simp add: best_for_def)

lemma best_for_max:
  "best_for S q (Some h) \<Longrightarrow> (q, c, sc, p, u) \<in> S \<Longrightarrow> sc \<le> score h"
  unfolding best_for_def by simp blast

lemma best_for_all:
  "best_for S q (Some h) \<Longrightarrow> (q, c, score h, p, u) \<in> S \<Longrightarrow> c \<in> fst ` set (aln h)"
  unfolding best_for_def by simp blast

lemma best_for_alt:
  "best_for S q (Some h) \<Longrightarrow> \<exists>c u. map_of (aln h) c = Some u"
  unfolding best_for_def by (cases "aln h") auto

lemma unfiltered_read_hit:
  assumes loop: "cluster_loop rnd a tm cs ([], []) = Inr (bh, rm)"
  shows "map_of bh q = None \<longleftrightarrow>
         (\<forall>c sc p u. (q, c, sc, p, u) \<notin> set (passing (pid a) (observations rnd a tm cs)))"
proof -
  from cluster_loop_best [OF loop]
  have b: "best_for (set (passing (pid a) (observations rnd a tm cs))) q (map_of bh q)"
    by (simp add: best_of_def)
  show ?thesis
  proof (cases "map_of bh q")
    case None
    with b show ?thesis by (simp add: best_for_def)
  next
    case (Some h)
    with b have bs: "best_for (set (passing (pid a) (observations rnd a tm cs))) q (Some h)" by simp
    from best_for_alt [OF bs] obtain c u where "map_of (aln h) c = Some u" by blast
    from best_for_member [OF bs this] Some show ?thesis by auto
  qed
qed

lemma example_observations:
  "observations round_double example_args False (map fst example_clusters) =
     [(''r1'', ''A'', 190, 95, [cluster_A_mate1, cluster_A_mate2]),
      (''r5'', ''A'', 90, 90, [low_identity_read]),
      (''r1'', ''B'', 195, 195 / 2, [example_mate1, example_mate2])]"
  by (simp add: observations_def observation_def example_args_def example_clusters_def
      fetch_reads_def cluster_A_mate1_def cluster_A_mate2_def low_identity_read_def
      example_mate1_def example_mate2_def compute_aln_score_def compute_perc_id_def
      perc_id_of_def tag_NM_def getitem_def round_double_numeral round_double_half)

lemma example_cluster_loop:
  "cluster_loop round_double example_args False (map fst example_clusters) ([], []) =
     Inr ([(''r1'', \<lparr>score = 195, aln = [(''B'', [example_mate1, example_mate2])]\<rparr>)],
          [((''A'', 0), ''scaffold1''), ((''B'', 0), ''scaffold2'')])"
  by (simp add: example_args_def example_clusters_def
      fetch_reads_def cluster_A_mate1_def cluster_A_mate2_def low_identity_read_def
      example_mate1_def example_mate2_def compute_aln_score_def compute_perc_id_def
      perc_id_of_def tag_NM_def getitem_def pe_read_step_def parse_pe_read_def store_hit_def
      reformat_ref_id_def split_on_def round_double_numeral round_double_half)

lemma example_find_best_hits:
  "find_best_hits round_double first_listed example_args example_clusters False =
     Inr ([(''r1'', Assigned ''B'' [example_mate1, example_mate2])],
          [((''A'', 0), ''scaffold1''), ((''B'', 0), ''scaffold2'')])"
  by (simp add: find_best_hits_def example_cluster_loop resolve_ties_def resolve_hit_def)

lemma observation_scored:
  "(q, c, sc, p, u) \<in> set (observation rnd a tm c' f u') \<Longrightarrow>
   c = c' \<and> u = u' \<and> compute_aln_score u = Inr sc \<and> compute_perc_id rnd u = Inr p
   \<and> (\<exists>r0. item u 0 = Inr r0 \<and> q = query_name r0)"
proof -
  assume ob: "(q, c, sc, p, u) \<in> set (observation rnd a tm c' f u')"
  show ?thesis
  proof (cases "item u' 0")
    case (Inl e)
    with ob show ?thesis by (simp add: observation_def split: sum.splits bool.splits)
  next
    case r0: (Inr r0)
    show ?thesis
    proof (cases "compute_aln_score u'")
      case (Inl e)
      with ob r0 show ?thesis by (simp add: observation_def split: sum.splits bool.splits)
    next
      case s: (Inr s)
      show ?thesis
      proof (cases "compute_perc_id rnd u'")
        case (Inl e)
        with ob r0 s show ?thesis by (simp add: observation_def split: sum.splits bool.splits)
      next
        case (Inr p')
        with ob r0 s show ?thesis
          by (auto simp: observation_def split: sum.splits bool.splits if_splits)
      qed
    qed
  qed
qed

lemma observations_scored:
  assumes "(q, c, sc, p, u) \<in> set (observations rnd a tm cs)"
  shows "c \<in> set cs \<and> (\<exists>f. bam a c = Some f \<and> u \<in> set (fetch_reads f))
   \<and> compute_aln_score u = Inr sc \<and> compute_perc_id rnd u = Inr p
   \<and> (\<exists>r0. item u 0 = Inr r0 \<and> q = query_name r0)"
proof -
  from assms obtain c' where c': "c' \<in> set cs"
    and inc: "(q, c, sc, p, u) \<in> set (case bam a c' of None \<Rightarrow> []
        | Some f \<Rightarrow> concat (map (observation rnd a tm c' f) (fetch_reads f)))"
    by (auto simp: observations_def)
  from inc obtain f where f: "bam a c' = Some f"
    and inf: "(q, c, sc, p, u) \<in> set (concat (map (observation rnd a tm c' f) (fetch_reads f)))"
    by (cases "bam a c'") auto
  from inf obtain u' where u': "u' \<in> set (fetch_reads f)"
    and ob: "(q, c, sc, p, u) \<in> set (observation rnd a tm c' f u')"
    by auto
  from observation_scored [OF ob] c' f u' show ?thesis by auto
qed

lemma passing_iff:
  "(q, c, sc, p, u) \<in> set (passing pid_min obs) \<longleftrightarrow> (q, c, sc, p, u) \<in> set obs \<and> pid_min \<le> p"
  by (auto simp: passing_def)

text \<open>
  Claim C1. Alignments are the units that reach the comparison of scores with a
  percent identity at or above the threshold (\<open>passing\<close>), the percent identity
  being the float \<open>compute_perc_id\<close> returns, for every rounding \<open>rnd\<close>. For a read
  id \<open>q\<close>:
  with no entry yet, such a unit creates the entry with its cluster as the only
  alternative; with a stored score strictly below the unit's, the entry is replaced
  by a fresh one with that cluster alone; with an equal stored score, the unit is
  stored under its cluster among the alternatives, whose clusters become the old ones
  and this one; with a strictly greater stored score, \<^verbatim>\<open>best_hits\<close> is unchanged.
  When the loops over clusters and units return, the alternatives of the entry of
  \<open>q\<close> are exactly the clusters with an alignment of \<open>q\<close> at the stored score, and
  no alignment of \<open>q\<close> scores higher. If one cluster \<open>B\<close> alone reaches the maximum
  \<open>m\<close>, then whatever the random source draws, \<open>find_best_hits\<close>, when it
  returns, assigns \<open>q\<close> to \<open>B\<close> with a unit of \<open>B\<close> of score \<open>m\<close>. The witness, in
  binary64, is the specification's example: 190 on cluster A against 195 on cluster B.
\<close>

theorem best_hit_rules:
  "(pid_min \<le> p \<and> map_of bh q = None \<longrightarrow>
      map_of (store_hit pid_min c u q sc p bh) q = Some \<lparr>score = sc, aln = [(c, u)]\<rparr>)
   \<and> (pid_min \<le> p \<and> map_of bh q = Some h \<and> score h < sc \<longrightarrow>
      map_of (store_hit pid_min c u q sc p bh) q = Some \<lparr>score = sc, aln = [(c, u)]\<rparr>)
   \<and> (pid_min \<le> p \<and> map_of bh q = Some h \<and> sc = score h \<longrightarrow>
      map_of (store_hit pid_min c u q sc p bh) q = Some (h\<lparr>aln := AList.update c u (aln h)\<rparr>)
      \<and> fst ` set (AList.update c u (aln h)) = insert c (fst ` set (aln h)))
   \<and> (map_of bh q = Some h \<and> sc < score h \<longrightarrow> store_hit pid_min c u q sc p bh = bh)
   \<and> (cluster_loop rnd a tm (map fst gcs) ([], []) = Inr (bh', rm) \<and> map_of bh' q = Some h' \<longrightarrow>
        (\<forall>c'. c' \<in> fst ` set (aln h') \<longleftrightarrow>
           (\<exists>p' u'. (q, c', score h', p', u')
               \<in> set (passing (pid a) (observations rnd a tm (map fst gcs)))))
        \<and> (\<forall>c' sc' p' u'.
              (q, c', sc', p', u') \<in> set (passing (pid a) (observations rnd a tm (map fst gcs)))
              \<longrightarrow> sc' \<le> score h'))
   \<and> (find_best_hits rnd draw a gcs tm = Inr (res, rm')
        \<and> (q, B, m, p0, u0) \<in> set (passing (pid a) (observations rnd a tm (map fst gcs)))
        \<and> (\<forall>c' sc' p' u'.
              (q, c', sc', p', u') \<in> set (passing (pid a) (observations rnd a tm (map fst gcs)))
              \<longrightarrow> sc' \<le> m \<and> (c' \<noteq> B \<longrightarrow> sc' < m))
        \<longrightarrow> (\<exists>u' p'. map_of res q = Some (Assigned B u')
               \<and> (q, B, m, p', u') \<in> set (passing (pid a) (observations rnd a tm (map fst gcs)))))"
proof (intro conjI impI)
  assume "pid_min \<le> p \<and> map_of bh q = None"
  then show "map_of (store_hit pid_min c u q sc p bh) q = Some \<lparr>score = sc, aln = [(c, u)]\<rparr>"
    by (simp add: store_hit_new)
next
  assume "pid_min \<le> p \<and> map_of bh q = Some h \<and> score h < sc"
  then show "map_of (store_hit pid_min c u q sc p bh) q = Some \<lparr>score = sc, aln = [(c, u)]\<rparr>"
    by (simp add: store_hit_better)
next
  assume "pid_min \<le> p \<and> map_of bh q = Some h \<and> sc = score h"
  then show "map_of (store_hit pid_min c u q sc p bh) q
      = Some (h\<lparr>aln := AList.update c u (aln h)\<rparr>)"
    by (simp add: store_hit_tie)
next
  show "fst ` set (AList.update c u (aln h)) = insert c (fst ` set (aln h))"
    by (simp add: dom_update)
next
  assume "map_of bh q = Some h \<and> sc < score h"
  then show "store_hit pid_min c u q sc p bh = bh" by (simp add: store_hit_worse)
next
  let ?S = "set (passing (pid a) (observations rnd a tm (map fst gcs)))"
  assume "cluster_loop rnd a tm (map fst gcs) ([], []) = Inr (bh', rm) \<and> map_of bh' q = Some h'"
  then have loop: "cluster_loop rnd a tm (map fst gcs) ([], []) = Inr (bh', rm)"
    and h': "map_of bh' q = Some h'" by simp_all
  from cluster_loop_best [OF loop] h' have b: "best_for ?S q (Some h')"
    by (auto simp: best_of_def dest: spec [of _ q])
  show "\<forall>c'. c' \<in> fst ` set (aln h') \<longleftrightarrow> (\<exists>p' u'. (q, c', score h', p', u') \<in> ?S)"
  proof (intro allI iffI)
    fix c' assume "c' \<in> fst ` set (aln h')"
    then obtain u' where "(c', u') \<in> set (aln h')" by auto
    with b have "map_of (aln h') c' = Some u'" by (simp add: best_for_def)
    from best_for_member [OF b this] show "\<exists>p' u'. (q, c', score h', p', u') \<in> ?S" by blast
  next
    fix c' assume "\<exists>p' u'. (q, c', score h', p', u') \<in> ?S"
    with best_for_all [OF b] show "c' \<in> fst ` set (aln h')" by blast
  qed
  show "\<forall>c' sc' p' u'. (q, c', sc', p', u') \<in> ?S \<longrightarrow> sc' \<le> score h'"
    using best_for_max [OF b] by blast
next
  let ?S = "set (passing (pid a) (observations rnd a tm (map fst gcs)))"
  assume asm: "find_best_hits rnd draw a gcs tm = Inr (res, rm') \<and> (q, B, m, p0, u0) \<in> ?S
        \<and> (\<forall>c' sc' p' u'. (q, c', sc', p', u') \<in> ?S \<longrightarrow> sc' \<le> m \<and> (c' \<noteq> B \<longrightarrow> sc' < m))"
  then have fb: "find_best_hits rnd draw a gcs tm = Inr (res, rm')" and top: "(q, B, m, p0, u0) \<in> ?S"
    and others: "\<And>c' sc' p' u'. (q, c', sc', p', u') \<in> ?S \<Longrightarrow> sc' \<le> m \<and> (c' \<noteq> B \<longrightarrow> sc' < m)"
    by blast+
  from find_best_hits_parts [OF fb] obtain bh0
    where loop: "cluster_loop rnd a tm (map fst gcs) ([], []) = Inr (bh0, rm')"
      and res: "resolve_ties draw bh0 gcs = Inr res" by blast
  from cluster_loop_best [OF loop] have inv: "best_of ?S bh0" by simp
  from unfiltered_read_hit [OF loop, of q] top obtain h0 where h0: "map_of bh0 q = Some h0"
    by (cases "map_of bh0 q") auto
  from inv h0 have b: "best_for ?S q (Some h0)"
    by (auto simp: best_of_def dest: spec [of _ q])
  from best_for_max [OF b top] have ge: "m \<le> score h0" .
  have only: "c' = B \<and> (\<exists>p'. (q, B, m, p', u') \<in> ?S)" if "map_of (aln h0) c' = Some u'" for c' u'
  proof -
    from best_for_member [OF b that] obtain p' where in_S: "(q, c', score h0, p', u') \<in> ?S"
      by blast
    from others [OF in_S] ge have "score h0 = m" "c' = B" by auto
    with in_S show ?thesis by auto
  qed
  from b have ne: "aln h0 \<noteq> []" and di: "distinct (map fst (aln h0))"
    by (simp_all add: best_for_def)
  obtain c1 u1 rest where al: "aln h0 = (c1, u1) # rest" using ne by (cases "aln h0") auto
  have "rest = []"
  proof (cases rest)
    case Nil
    then show ?thesis .
  next
    case (Cons x xs)
    obtain c2 u2 where x: "x = (c2, u2)" by (cases x) auto
    from di al Cons x have neq: "c2 \<noteq> c1" by auto
    from di al Cons x have "map_of (aln h0) c2 = Some u2" by auto
    from only [OF this] have "c2 = B" by simp
    moreover from al have "map_of (aln h0) c1 = Some u1" by simp
    from only [OF this] have "c1 = B" by simp
    ultimately show ?thesis using neq by simp
  qed
  with al have single: "aln h0 = [(c1, u1)]" by simp
  then have "map_of (aln h0) c1 = Some u1" by simp
  from only [OF this] obtain p' where c1: "c1 = B" and inS: "(q, B, m, p', u1) \<in> ?S" by blast
  from inv have "distinct (map fst bh0)" by (simp add: best_of_def)
  from resolve_ties_entries [OF res this, of q] h0 resolve_hit_single [OF single]
  have "map_of res q = Some (Assigned B u1)" by (auto simp: c1)
  with inS show "\<exists>u' p'. map_of res q = Some (Assigned B u') \<and> (q, B, m, p', u') \<in> ?S" by blast
qed

lemma observation_iff:
  "(q, c, sc, p, u) \<in> set (observation rnd a tm c' f u') \<longleftrightarrow>
     c = c' \<and> u = u'
     \<and> (if tm then
          masked (run_to_genome_of (tax_map_lines a))
            (scaffold_to_genome_of (genome_to_scaffold a c')) f u'
        else Inr False) = Inr False
     \<and> (\<exists>r0. item u 0 = Inr r0 \<and> q = query_name r0)
     \<and> compute_aln_score u = Inr sc \<and> compute_perc_id rnd u = Inr p"
  by (cases "item u' 0"; cases "compute_aln_score u'"; cases "compute_perc_id rnd u'";
      cases "masked (run_to_genome_of (tax_map_lines a))
            (scaffold_to_genome_of (genome_to_scaffold a c')) f u'")
    (auto simp: observation_def split: bool.splits)

text \<open>
  The tuples of \<open>observations\<close> in the code's own terms: the unit is read from the
  file of a listed cluster, masking does not skip it, and the tuple holds the read id
  of its first record, its score and its percent identity.
\<close>

lemma observations_iff:
  "(q, c, sc, p, u) \<in> set (observations rnd a tm cs) \<longleftrightarrow>
     c \<in> set cs
     \<and> (\<exists>f. bam a c = Some f \<and> u \<in> set (fetch_reads f)
          \<and> (if tm then
               masked (run_to_genome_of (tax_map_lines a))
                 (scaffold_to_genome_of (genome_to_scaffold a c)) f u
             else Inr False) = Inr False)
     \<and> (\<exists>r0. item u 0 = Inr r0 \<and> q = query_name r0)
     \<and> compute_aln_score u = Inr sc \<and> compute_perc_id rnd u = Inr p"
proof
  assume "(q, c, sc, p, u) \<in> set (observations rnd a tm cs)"
  then obtain c' where c': "c' \<in> set cs"
    and inc: "(q, c, sc, p, u) \<in> set (case bam a c' of None \<Rightarrow> []
        | Some f \<Rightarrow> concat (map (observation rnd a tm c' f) (fetch_reads f)))"
    by (auto simp: observations_def)
  from inc obtain f where f: "bam a c' = Some f"
    and inf: "(q, c, sc, p, u) \<in> set (concat (map (observation rnd a tm c' f) (fetch_reads f)))"
    by (cases "bam a c'") auto
  from inf obtain u' where u': "u' \<in> set (fetch_reads f)"
    and ob: "(q, c, sc, p, u) \<in> set (observation rnd a tm c' f u')"
    by auto
  from ob [unfolded observation_iff] c' f u'
  show "c \<in> set cs
     \<and> (\<exists>f. bam a c = Some f \<and> u \<in> set (fetch_reads f)
          \<and> (if tm then
               masked (run_to_genome_of (tax_map_lines a))
                 (scaffold_to_genome_of (genome_to_scaffold a c)) f u
             else Inr False) = Inr False)
     \<and> (\<exists>r0. item u 0 = Inr r0 \<and> q = query_name r0)
     \<and> compute_aln_score u = Inr sc \<and> compute_perc_id rnd u = Inr p"
    by auto
next
  assume r: "c \<in> set cs
     \<and> (\<exists>f. bam a c = Some f \<and> u \<in> set (fetch_reads f)
          \<and> (if tm then
               masked (run_to_genome_of (tax_map_lines a))
                 (scaffold_to_genome_of (genome_to_scaffold a c)) f u
             else Inr False) = Inr False)
     \<and> (\<exists>r0. item u 0 = Inr r0 \<and> q = query_name r0)
     \<and> compute_aln_score u = Inr sc \<and> compute_perc_id rnd u = Inr p"
  then obtain f where f: "bam a c = Some f" and u: "u \<in> set (fetch_reads f)"
    and ob: "(q, c, sc, p, u) \<in> set (observation rnd a tm c f u)"
    unfolding observation_iff by blast
  from u ob have "(q, c, sc, p, u) \<in> set (concat (map (observation rnd a tm c f) (fetch_reads f)))"
    by auto
  with r f show "(q, c, sc, p, u) \<in> set (observations rnd a tm cs)"
    by (auto simp: observations_def intro!: bexI [of _ c])
qed

text \<open>
  Claim C4. A unit whose percent identity is below the threshold leaves
  \<^verbatim>\<open>best_hits\<close> as it is. When the loops return: a read id all of whose units
  that reach the comparison are below the threshold has no entry, and every
  alternative of every entry has a percent identity at or above the threshold. When
  \<open>find_best_hits\<close> returns, such a read id has no assignment. The percent
  identities are the floats \<open>compute_perc_id\<close> returns, for every rounding \<open>rnd\<close>.
  The witness, in binary64, is read \<open>r5\<close> of the example batch, aligned once at 90
  percent against a threshold of 94.
\<close>

theorem identity_filter:
  "(p < pid_min \<longrightarrow> store_hit pid_min c u q sc p bh = bh)
   \<and> (cluster_loop rnd a tm (map fst gcs) ([], []) = Inr (bh', rm) \<longrightarrow>
        ((\<forall>c' sc' p' u'. (q, c', sc', p', u') \<in> set (observations rnd a tm (map fst gcs))
            \<longrightarrow> p' < pid a) \<longrightarrow> map_of bh' q = None)
        \<and> (\<forall>q' h c' u'. map_of bh' q' = Some h \<and> map_of (aln h) c' = Some u' \<longrightarrow>
              (\<exists>p'. compute_perc_id rnd u' = Inr p' \<and> pid a \<le> p')))
   \<and> (find_best_hits rnd draw a gcs tm = Inr (res, rm')
        \<and> (\<forall>c' sc' p' u'. (q, c', sc', p', u') \<in> set (observations rnd a tm (map fst gcs))
              \<longrightarrow> p' < pid a)
        \<longrightarrow> map_of res q = None)"
proof (intro conjI impI)
  assume "p < pid_min"
  then show "store_hit pid_min c u q sc p bh = bh" by (rule store_hit_filtered)
next
  assume loop: "cluster_loop rnd a tm (map fst gcs) ([], []) = Inr (bh', rm)"
    and low: "\<forall>c' sc' p' u'. (q, c', sc', p', u') \<in> set (observations rnd a tm (map fst gcs))
            \<longrightarrow> p' < pid a"
  then have "\<forall>c sc p u. (q, c, sc, p, u) \<notin> set (passing (pid a) (observations rnd a tm (map fst gcs)))"
    by (fastforce simp: passing_iff)
  with unfiltered_read_hit [OF loop, of q] show "map_of bh' q = None" by simp
next
  assume loop: "cluster_loop rnd a tm (map fst gcs) ([], []) = Inr (bh', rm)"
  show "\<forall>q' h c' u'. map_of bh' q' = Some h \<and> map_of (aln h) c' = Some u' \<longrightarrow>
              (\<exists>p'. compute_perc_id rnd u' = Inr p' \<and> pid a \<le> p')"
  proof (intro allI impI)
    fix q' h c' u'
    assume "map_of bh' q' = Some h \<and> map_of (aln h) c' = Some u'"
    then have h: "map_of bh' q' = Some h" and alt: "map_of (aln h) c' = Some u'" by simp_all
    from cluster_loop_best [OF loop] h
    have "best_for (set (passing (pid a) (observations rnd a tm (map fst gcs)))) q' (Some h)"
      by (auto simp: best_of_def dest: spec [of _ q'])
    from best_for_member [OF this alt] obtain p'
      where "(q', c', score h, p', u') \<in> set (passing (pid a) (observations rnd a tm (map fst gcs)))"
      by blast
    then have "(q', c', score h, p', u') \<in> set (observations rnd a tm (map fst gcs))" "pid a \<le> p'"
      by (simp_all add: passing_iff)
    with observations_scored [of q' c' "score h" p' u'] show
      "\<exists>p'. compute_perc_id rnd u' = Inr p' \<and> pid a \<le> p'" by blast
  qed
next
  assume "find_best_hits rnd draw a gcs tm = Inr (res, rm')
        \<and> (\<forall>c' sc' p' u'. (q, c', sc', p', u') \<in> set (observations rnd a tm (map fst gcs))
              \<longrightarrow> p' < pid a)"
  then have fb: "find_best_hits rnd draw a gcs tm = Inr (res, rm')"
    and low: "\<forall>c' sc' p' u'. (q, c', sc', p', u') \<in> set (observations rnd a tm (map fst gcs))
              \<longrightarrow> p' < pid a" by simp_all
  from find_best_hits_parts [OF fb] obtain bh0
    where loop: "cluster_loop rnd a tm (map fst gcs) ([], []) = Inr (bh0, rm')"
      and res: "resolve_ties draw bh0 gcs = Inr res" by blast
  from low have "\<forall>c sc p u. (q, c, sc, p, u) \<notin> set (passing (pid a) (observations rnd a tm (map fst gcs)))"
    by (fastforce simp: passing_iff)
  with unfiltered_read_hit [OF loop, of q] have none: "map_of bh0 q = None" by simp
  from cluster_loop_best [OF loop] have "distinct (map fst bh0)" by (simp add: best_of_def)
  from resolve_ties_entries [OF res this, of q] none show "map_of res q = None" by simp
qed

lemma example_pid [simp]: "pid example_args = 94"
  by (simp add: example_args_def)

theorem best_hit_rules_witness:
  "map_of (store_hit 94 ''B'' [example_mate1, example_mate2] ''r1'' 195 (195 / 2)
        [(''r1'', \<lparr>score = 190, aln = [(''A'', [cluster_A_mate1, cluster_A_mate2])]\<rparr>)]) ''r1''
     = Some \<lparr>score = 195, aln = [(''B'', [example_mate1, example_mate2])]\<rparr>
   \<and> find_best_hits round_double first_listed example_args example_clusters False =
       Inr ([(''r1'', Assigned ''B'' [example_mate1, example_mate2])],
            [((''A'', 0), ''scaffold1''), ((''B'', 0), ''scaffold2'')])
   \<and> (\<exists>u' p'. map_of [(''r1'', Assigned ''B'' [example_mate1, example_mate2])] ''r1''
          = Some (Assigned ''B'' u')
        \<and> (''r1'', ''B'', 195, p', u')
            \<in> set (passing (pid example_args)
                 (observations round_double example_args False (map fst example_clusters))))"
proof -
  let ?hA = "\<lparr>score = 190, aln = [(''A'', [cluster_A_mate1, cluster_A_mate2])]\<rparr>"
  let ?uB = "[example_mate1, example_mate2]"
  let ?res = "[(''r1'', Assigned ''B'' ?uB)]"
  let ?rm = "[((''A'', 0 :: int), ''scaffold1''), ((''B'', 0), ''scaffold2'')]"
  let ?S = "set (passing (pid example_args)
                 (observations round_double example_args False (map fst example_clusters)))"
  have better: "(94 :: rat) \<le> 195 / 2 \<and> map_of [(''r1'', ?hA)] ''r1'' = Some ?hA \<and> score ?hA < 195"
    by simp
  have fb: "find_best_hits round_double first_listed example_args example_clusters False = Inr (?res, ?rm)"
    by (rule example_find_best_hits)
  have top: "(''r1'', ''B'', 195, 195 / 2, ?uB) \<in> ?S"
    by (simp add: example_observations passing_def)
  have others: "\<forall>c' sc' p' u'. (''r1'', c', sc', p', u') \<in> ?S
      \<longrightarrow> sc' \<le> 195 \<and> (c' \<noteq> ''B'' \<longrightarrow> sc' < 195)"
    by (simp add: example_observations passing_def)
  from best_hit_rules [where pid_min = 94 and p = "195 / 2" and bh = "[(''r1'', ?hA)]"
      and q = "''r1''" and c = "''B''" and u = ?uB and sc = 195 and h = ?hA
      and a = example_args and tm = False and gcs = example_clusters
      and draw = first_listed and rnd = round_double and res = ?res and rm' = ?rm and B = "''B''" and m = 195
      and ?p0.0 = "195 / 2" and ?u0.0 = ?uB]
    better fb top others
  show ?thesis by blast
qed

theorem identity_filter_witness:
  "(90 :: rat) < 94
   \<and> store_hit 94 ''A'' [low_identity_read] ''r5'' 90 90 [] = []
   \<and> find_best_hits round_double first_listed example_args example_clusters False =
       Inr ([(''r1'', Assigned ''B'' [example_mate1, example_mate2])],
            [((''A'', 0), ''scaffold1''), ((''B'', 0), ''scaffold2'')])
   \<and> (''r5'', ''A'', 90, 90, [low_identity_read])
        \<in> set (observations round_double example_args False (map fst example_clusters))
   \<and> map_of [(''r1'', Assigned ''B'' [example_mate1, example_mate2])] ''r5'' = None"
proof -
  let ?res = "[(''r1'', Assigned ''B'' [example_mate1, example_mate2])]"
  let ?rm = "[((''A'', 0 :: int), ''scaffold1''), ((''B'', 0), ''scaffold2'')]"
  have lt: "(90 :: rat) < 94" by simp
  have fb: "find_best_hits round_double first_listed example_args example_clusters False = Inr (?res, ?rm)"
    by (rule example_find_best_hits)
  have ob: "(''r5'', ''A'', 90, 90, [low_identity_read])
        \<in> set (observations round_double example_args False (map fst example_clusters))"
    by (simp add: example_observations)
  have low: "\<forall>c' sc' p' u'. (''r5'', c', sc', p', u')
        \<in> set (observations round_double example_args False (map fst example_clusters))
      \<longrightarrow> p' < pid example_args"
    by (simp add: example_observations)
  from identity_filter [where p = 90 and pid_min = 94 and c = "''A''" and u = "[low_identity_read]"
      and q = "''r5''" and sc = 90 and bh = "[]" and a = example_args and tm = False
      and gcs = example_clusters and draw = first_listed and rnd = round_double and res = ?res and rm' = ?rm]
    lt fb ob low
  show ?thesis by blast
qed

subsection \<open>Resolving ties\<close>

text \<open>
  Claim C2, where the code departs from it. For a read tied between two clusters
  whose abundances are both 0, \<^verbatim>\<open>abund/sum(abunds)\<close> divides by zero:
  \<open>resolve_ties\<close> raises \<^verbatim>\<open>ZeroDivisionError\<close> and assigns nothing, whatever
  the random source.
\<close>

theorem resolve_ties_zero_abundance:
  "resolve_ties draw tied_best_hits zero_abundance_clusters = Inl ZeroDivisionError"
  by (simp add: resolve_ties_def tied_best_hits_def zero_abundance_clusters_def resolve_hit_def
      getitem_def normalise_def)

text \<open>Where the abundances of the tied clusters do not sum to 0, the weights are
  each abundance over the sum, and sum to 1.\<close>

lemma normalise_sums_to_one:
  "sum_list abunds \<noteq> 0 \<Longrightarrow>
   \<exists>probs. normalise abunds = Inr probs \<and> sum_list probs = 1 \<and> length probs = length abunds
     \<and> (\<forall>i < length abunds. probs ! i = abunds ! i / sum_list abunds)"
proof -
  assume nz: "sum_list abunds \<noteq> 0"
  have "sum_list (map (\<lambda>x. x / c) xs) = sum_list xs / c" for c :: rat and xs
    by (induction xs) (simp_all add: add_divide_distrib)
  with nz show ?thesis by (simp add: normalise_def)
qed

lemma example_tie:
  "resolve_ties first_listed tied_best_hits example_clusters
     = Inr [(''r1'', Assigned ''A'' [cluster_A_mate1, cluster_A_mate2])]"
  by (simp add: resolve_ties_def tied_best_hits_def example_clusters_def resolve_hit_def
      getitem_def normalise_def random_choice_def first_listed_def)

lemma abundances_present:
  "\<forall>gc \<in> set gcs. \<exists>abund. map_of ab gc = Some abund \<Longrightarrow>
   abundances ab gcs = Inr (map (\<lambda>gc. the (map_of ab gc)) gcs)"
  by (induction gcs) (auto simp: getitem_def)

lemma sum_list_divide: "sum_list (map (\<lambda>x. x / c) xs) = sum_list xs / (c :: rat)"
  by (induction xs) (simp_all add: add_divide_distrib)

lemma sum_list_nonneg_rat: "\<forall>x \<in> set xs. (0 :: rat) \<le> x \<Longrightarrow> 0 \<le> sum_list xs"
  by (induction xs) auto

lemma resolve_hit_assigns:
  assumes "drawable draw ab q h"
  shows "\<exists>c u. resolve_hit draw ab q h = Inr (Assigned c u) \<and> map_of (aln h) c = Some u"
proof (cases "length (aln h) = 1")
  case True
  then obtain c u where "aln h = [(c, u)]" by (cases "aln h") auto
  then show ?thesis by (simp add: resolve_hit_def)
next
  case False
  with assms have many: "length (aln h) > 1" by (cases "aln h") (auto simp: drawable_def)
  let ?gcs = "map fst (aln h)"
  let ?abunds = "map (\<lambda>gc. the (map_of ab gc)) ?gcs"
  let ?probs = "map (\<lambda>x. x / sum_list ?abunds) ?abunds"
  from assms many have pres: "\<forall>gc \<in> set ?gcs. \<exists>abund. map_of ab gc = Some abund"
    and nonneg: "\<forall>x \<in> set ?abunds. 0 \<le> x"
    and nz: "sum_list ?abunds \<noteq> 0"
    and member: "draw q ?gcs ?probs \<in> fst ` set (aln h)"
    by (auto simp: drawable_def)
  from abundances_present [OF pres] have ab: "abundances ab ?gcs = Inr ?abunds" .
  from nz have no: "normalise ?abunds = Inr ?probs" by (simp add: normalise_def)
  from sum_list_nonneg_rat [OF nonneg] nz have pos: "0 < sum_list ?abunds" by simp
  with nonneg have "\<not> list_ex (\<lambda>x. x < 0) ?probs"
    by (auto simp: list_ex_iff divide_less_0_iff not_less)
  moreover from nz have "sum_list ?probs = 1"
    using sum_list_divide [of "sum_list ?abunds" ?abunds] by (simp del: map_map)
  ultimately have ch: "random_choice draw q ?gcs ?probs = Inr (draw q ?gcs ?probs)"
    by (simp add: random_choice_def)
  from member obtain u where u: "map_of (aln h) (draw q ?gcs ?probs) = Some u"
    by (cases "map_of (aln h) (draw q ?gcs ?probs)") (auto simp: map_of_eq_None_iff)
  from False many ab no ch u show ?thesis
    by (simp add: resolve_hit_def getitem_def Let_def)
qed

lemma resolve_loop_total:
  "\<forall>(q, h) \<in> set items. drawable draw ab q h \<Longrightarrow>
   \<exists>res. resolve_loop draw ab items acc = Inr res"
proof (induction items arbitrary: acc)
  case Nil
  then show ?case by simp
next
  case (Cons it items)
  obtain q h where it: "it = (q, h)" by (cases it) auto
  with Cons.prems have "drawable draw ab q h" by simp
  from resolve_hit_assigns [OF this] obtain c u
    where "resolve_hit draw ab q h = Inr (Assigned c u)" by blast
  with Cons.IH [of "AList.update q (Assigned c u) acc"] Cons.prems it show ?case by simp
qed

text \<open>
  On entries that are all \<open>drawable\<close>, \<open>resolve_ties\<close> returns, keeps the read
  ids, and gives each one cluster of its alternatives with that cluster's unit.
\<close>

lemma resolve_ties_assigns:
  assumes dr: "\<forall>(q, h) \<in> set bh. drawable draw ab q h" and di: "distinct (map fst bh)"
  shows "\<exists>res. resolve_ties draw bh ab = Inr res
     \<and> (\<forall>q. case map_of bh q of
            None \<Rightarrow> map_of res q = None
          | Some h \<Rightarrow> \<exists>c u. map_of res q = Some (Assigned c u) \<and> map_of (aln h) c = Some u)"
proof -
  from resolve_loop_total [OF dr] obtain res where res: "resolve_ties draw bh ab = Inr res"
    unfolding resolve_ties_def by blast
  have "case map_of bh q of
            None \<Rightarrow> map_of res q = None
          | Some h \<Rightarrow> \<exists>c u. map_of res q = Some (Assigned c u) \<and> map_of (aln h) c = Some u" for q
  proof (cases "map_of bh q")
    case None
    with resolve_ties_entries [OF res di, of q] show ?thesis by simp
  next
    case (Some h)
    then have "(q, h) \<in> set bh" by (rule map_of_SomeD)
    with dr have "drawable draw ab q h" by auto
    from resolve_hit_assigns [OF this] resolve_ties_entries [OF res di, of q] Some
    show ?thesis by auto
  qed
  with res show ?thesis by blast
qed

subsection \<open>Pangenome coverage\<close>

lemma np_add_Finite: "np_add rnd (Finite a) (Finite b) = Finite (rnd (a + b))"
  by (simp add: np_add_def)

lemma np_add_0: "np_add rnd 0 (Finite b) = Finite (rnd b)"
  by (simp add: np_add_def zero_npfloat_def)

lemma lookup0_Nil: "lookup0 [] k = 0"
  by (simp add: lookup0_def)

lemma lookup0_Cons: "lookup0 ((k0, v0) # m) k = (if k = k0 then v0 else lookup0 m k)"
  by (simp add: lookup0_def)

lemma coverage_tenth:
  "coverage_of round_double (Finite 100) (example_bed_cov p 1 1000) = Finite tenth"
  by (simp add: coverage_of_def np_of_int_def np_times_def np_divide_def example_bed_cov_def
      rd_1 rd_100 rd_1000 rd_1_10)

lemma coverage_fifth:
  "coverage_of round_double (Finite 100) (example_bed_cov p 2 1000) = Finite fifth"
  by (simp add: coverage_of_def np_of_int_def np_times_def np_divide_def example_bed_cov_def
      rd_2 rd_200 rd_1000 rd_1_5)

lemma coverage_three_tenths:
  "coverage_of round_double (Finite 100) (example_bed_cov p 3 1000) = Finite three_tenths"
  by (simp add: coverage_of_def np_of_int_def np_times_def np_divide_def example_bed_cov_def
      rd_3 rd_300 rd_1000 rd_3_10)

lemma example_pangene [simp]: "pangene_id (example_bed_cov p n len) = p"
  by (simp add: example_bed_cov_def)

lemma rounded_forward:
  "fold (compute_pangenome_coverage round_double (Finite 100)) three_batches []
     = [(''p1'', Finite six_tenths_up)]"
  by (simp add: three_batches_def compute_pangenome_coverage_def add_coverage_def
      coverage_tenth coverage_fifth coverage_three_tenths lookup0_Nil lookup0_Cons
      np_add_0 np_add_Finite rd_tenth rd_tenth_fifth rd_sum_forward)

lemma rounded_backward:
  "fold (compute_pangenome_coverage round_double (Finite 100)) (rev three_batches) []
     = [(''p1'', Finite six_tenths)]"
  by (simp add: three_batches_def compute_pangenome_coverage_def add_coverage_def
      coverage_tenth coverage_fifth coverage_three_tenths lookup0_Nil lookup0_Cons
      np_add_0 np_add_Finite rd_three_tenths rd_three_tenths_fifth rd_half_tenth)

lemma rounded_merge:
  "merge_coverage round_double
     (compute_pangenome_coverage round_double (Finite 100) (three_batches ! 0) [])
     (compute_pangenome_coverage round_double (Finite 100)
        (three_batches ! 1 @ three_batches ! 2) [])
   = [(''p1'', Finite six_tenths)]"
  by (simp add: three_batches_def compute_pangenome_coverage_def add_coverage_def
      merge_coverage_def
      coverage_tenth coverage_fifth coverage_three_tenths lookup0_Nil lookup0_Cons
      np_add_0 np_add_Finite rd_tenth rd_fifth rd_fifth_three_tenths rd_tenth_half)

lemma six_tenths_differ: "six_tenths_up \<noteq> six_tenths"
  by (simp add: six_tenths_up_def six_tenths_def)

lemma lookup0_update:
  "lookup0 (AList.update k v m) k' = (if k' = k then v else lookup0 m k')"
  by (simp add: lookup0_def update_conv')

lemma lookup0_absent: "k \<notin> fst ` set m \<Longrightarrow> lookup0 m k = 0"
  by (simp add: lookup0_def map_of_eq_None_iff [symmetric])

lemma map_of_by_lookup0:
  "map_of m k = (if k \<in> fst ` set m then Some (lookup0 m k) else None)"
proof (cases "map_of m k")
  case None
  then show ?thesis by (simp add: map_of_eq_None_iff)
next
  case (Some v)
  then have "(k, v) \<in> set m" by (rule map_of_SomeD)
  then have "k \<in> fst ` set m" by force
  with Some show ?thesis by (simp add: lookup0_def)
qed

lemma add_coverage_keys:
  "fst ` set (add_coverage rnd rl r m) = insert (pangene_id r) (fst ` set m)"
  by (simp add: add_coverage_def dom_update)

lemma add_coverage_distinct:
  "distinct (map fst m) \<Longrightarrow> distinct (map fst (add_coverage rnd rl r m))"
  by (simp add: add_coverage_def distinct_update)

lemma compute_keys:
  "fst ` set (compute_pangenome_coverage rnd rl recs m) = pangene_id ` set recs \<union> fst ` set m"
  by (induction recs arbitrary: m)
    (auto simp: compute_pangenome_coverage_def add_coverage_keys)

lemma compute_distinct:
  "distinct (map fst m) \<Longrightarrow> distinct (map fst (compute_pangenome_coverage rnd rl recs m))"
  by (induction recs arbitrary: m)
    (auto simp: compute_pangenome_coverage_def add_coverage_distinct)

lemma batches_single_pass:
  "fold (compute_pangenome_coverage rnd rl) batches m
     = compute_pangenome_coverage rnd rl (concat batches) m"
  by (induction batches arbitrary: m) (simp_all add: compute_pangenome_coverage_def)

lemma mset_concat_permuted:
  "mset batches' = mset batches \<Longrightarrow> mset (concat batches') = mset (concat batches)"
  by (simp add: mset_concat) (metis mset_map sum_mset_sum_list)

lemma np_round_id: "np_round no_rounding v = v"
  by (cases v) (simp_all add: no_rounding_def)

lemma np_add_id: "np_add no_rounding x y = x + y"
  by (simp add: np_add_def np_round_id)

lemma add_coverage_lookup:
  "lookup0 (add_coverage no_rounding rl r m) k =
     (if k = pangene_id r then lookup0 m k + coverage_of no_rounding rl r else lookup0 m k)"
  by (simp add: add_coverage_def lookup0_update np_add_id)

lemma compute_lookup0:
  "lookup0 (compute_pangenome_coverage no_rounding rl recs m) k =
     lookup0 m k + sum_list (map (coverage_of no_rounding rl) (filter (\<lambda>r. pangene_id r = k) recs))"
proof (induction recs arbitrary: m)
  case Nil
  then show ?case by (simp add: compute_pangenome_coverage_def)
next
  case (Cons r recs)
  have "lookup0 (compute_pangenome_coverage no_rounding rl (r # recs) m) k
      = lookup0 (compute_pangenome_coverage no_rounding rl recs (add_coverage no_rounding rl r m)) k"
    by (simp add: compute_pangenome_coverage_def)
  also have "\<dots> = lookup0 (add_coverage no_rounding rl r m) k
      + sum_list (map (coverage_of no_rounding rl) (filter (\<lambda>r. pangene_id r = k) recs))"
    by (rule Cons.IH)
  finally show ?case by (simp add: add_coverage_lookup add.assoc)
qed

lemma compute_map_of:
  "map_of (compute_pangenome_coverage no_rounding rl recs m) k =
     (if k \<in> pangene_id ` set recs \<union> fst ` set m
      then Some (lookup0 m k
        + sum_list (map (coverage_of no_rounding rl) (filter (\<lambda>r. pangene_id r = k) recs)))
      else None)"
  by (simp only: map_of_by_lookup0 [of "compute_pangenome_coverage no_rounding rl recs m"] compute_keys
      compute_lookup0)

lemma sum_list_mset_eq:
  fixes xs ys :: "npfloat list"
  shows "mset xs = mset ys \<Longrightarrow> sum_list xs = sum_list ys"
  by (metis sum_mset_sum_list)

lemma compute_permuted:
  assumes "mset recs' = mset recs"
  shows "map_of (compute_pangenome_coverage no_rounding rl recs' m)
       = map_of (compute_pangenome_coverage no_rounding rl recs m)"
proof
  fix k
  from assms have "mset (map (coverage_of no_rounding rl) (filter (\<lambda>r. pangene_id r = k) recs'))
      = mset (map (coverage_of no_rounding rl) (filter (\<lambda>r. pangene_id r = k) recs))"
    by simp
  then have "sum_list (map (coverage_of no_rounding rl) (filter (\<lambda>r. pangene_id r = k) recs'))
      = sum_list (map (coverage_of no_rounding rl) (filter (\<lambda>r. pangene_id r = k) recs))"
    by (rule sum_list_mset_eq)
  moreover from assms have "set recs' = set recs" by (rule mset_eq_setD)
  ultimately show "map_of (compute_pangenome_coverage no_rounding rl recs' m) k
      = map_of (compute_pangenome_coverage no_rounding rl recs m) k"
    by (simp add: compute_map_of)
qed

lemma merge_coverage_Cons:
  "merge_coverage rnd m1 ((k0, v0) # m2)
     = merge_coverage rnd (AList.update k0 (np_add rnd (lookup0 m1 k0) v0) m1) m2"
  by (simp add: merge_coverage_def)

lemma merge_keys: "fst ` set (merge_coverage rnd m1 m2) = fst ` set m1 \<union> fst ` set m2"
proof (induction m2 arbitrary: m1)
  case Nil
  then show ?case by (simp add: merge_coverage_def)
next
  case (Cons e m2)
  obtain k0 v0 where e: "e = (k0, v0)" by (cases e) auto
  have "fst ` set (merge_coverage rnd m1 (e # m2))
      = fst ` set (AList.update k0 (np_add rnd (lookup0 m1 k0) v0) m1) \<union> fst ` set m2"
    unfolding e merge_coverage_Cons by (rule Cons.IH)
  then show ?case by (auto simp: e dom_update)
qed

lemma merge_distinct:
  "distinct (map fst m1) \<Longrightarrow> distinct (map fst (merge_coverage rnd m1 m2))"
proof (induction m2 arbitrary: m1)
  case Nil
  then show ?case by (simp add: merge_coverage_def)
next
  case (Cons e m2)
  obtain k0 v0 where e: "e = (k0, v0)" by (cases e) auto
  from Cons.prems have "distinct (map fst (AList.update k0 (np_add rnd (lookup0 m1 k0) v0) m1))"
    by (simp add: distinct_update)
  from Cons.IH [OF this] show ?case unfolding e merge_coverage_Cons .
qed

lemma merge_lookup0:
  "distinct (map fst m2) \<Longrightarrow>
   lookup0 (merge_coverage no_rounding m1 m2) k = lookup0 m1 k + lookup0 m2 k"
proof (induction m2 arbitrary: m1)
  case Nil
  then show ?case by (simp add: merge_coverage_def lookup0_Nil)
next
  case (Cons e m2)
  obtain k0 v0 where e: "e = (k0, v0)" by (cases e) auto
  from Cons.prems have d: "distinct (map fst m2)" and n: "k0 \<notin> fst ` set m2" by (auto simp: e)
  from n have z: "lookup0 m2 k0 = 0" by (rule lookup0_absent)
  have "lookup0 (merge_coverage no_rounding m1 (e # m2)) k
      = lookup0 (AList.update k0 (np_add no_rounding (lookup0 m1 k0) v0) m1) k + lookup0 m2 k"
    unfolding e merge_coverage_Cons by (rule Cons.IH [OF d])
  also have "\<dots> = lookup0 m1 k + lookup0 (e # m2) k"
    using z by (cases "k = k0") (simp_all add: lookup0_update lookup0_Cons e np_add_id)
  finally show ?case .
qed

lemma merge_map_of:
  "distinct (map fst m2) \<Longrightarrow>
   map_of (merge_coverage no_rounding m1 m2) k =
     (if k \<in> fst ` set m1 \<union> fst ` set m2 then Some (lookup0 m1 k + lookup0 m2 k) else None)"
  by (simp only: map_of_by_lookup0 [of "merge_coverage no_rounding m1 m2"] merge_keys merge_lookup0)

lemma merge_commute:
  "distinct (map fst m1) \<Longrightarrow> distinct (map fst m2) \<Longrightarrow>
   map_of (merge_coverage no_rounding m1 m2) = map_of (merge_coverage no_rounding m2 m1)"
  by (rule ext) (simp add: merge_map_of add.commute Un_commute)

lemma merge_assoc:
  assumes "distinct (map fst m2)" and "distinct (map fst m3)"
  shows "map_of (merge_coverage no_rounding (merge_coverage no_rounding m1 m2) m3)
       = map_of (merge_coverage no_rounding m1 (merge_coverage no_rounding m2 m3))"
proof
  fix k
  from assms(1) have d: "distinct (map fst (merge_coverage no_rounding m2 m3))" by (rule merge_distinct)
  show "map_of (merge_coverage no_rounding (merge_coverage no_rounding m1 m2) m3) k
       = map_of (merge_coverage no_rounding m1 (merge_coverage no_rounding m2 m3)) k"
    by (simp add: merge_map_of [OF assms(2)] merge_map_of [OF d] merge_keys
        merge_lookup0 [OF assms(1)] merge_lookup0 [OF assms(2)] add.assoc Un_assoc)
qed

lemma merge_partial:
  "map_of (merge_coverage no_rounding (compute_pangenome_coverage no_rounding rl b1 [])
      (compute_pangenome_coverage no_rounding rl b2 []))
     = map_of (compute_pangenome_coverage no_rounding rl (b1 @ b2) [])"
proof
  fix k
  let ?m1 = "compute_pangenome_coverage no_rounding rl b1 []"
  let ?m2 = "compute_pangenome_coverage no_rounding rl b2 []"
  have d: "distinct (map fst ?m2)"
    by (rule compute_distinct) simp
  have keys: "fst ` set (merge_coverage no_rounding ?m1 ?m2)
      = fst ` set (compute_pangenome_coverage no_rounding rl (b1 @ b2) [])"
    by (simp add: merge_keys compute_keys image_Un)
  have vals: "lookup0 (merge_coverage no_rounding ?m1 ?m2) k
      = lookup0 (compute_pangenome_coverage no_rounding rl (b1 @ b2) []) k"
    by (simp add: merge_lookup0 [OF d] compute_lookup0 lookup0_Nil)
  show "map_of (merge_coverage no_rounding ?m1 ?m2) k
      = map_of (compute_pangenome_coverage no_rounding rl (b1 @ b2) []) k"
    unfolding map_of_by_lookup0 [of "merge_coverage no_rounding ?m1 ?m2"]
      map_of_by_lookup0 [of "compute_pangenome_coverage no_rounding rl (b1 @ b2) []"] keys vals ..
qed

text \<open>
  Claim C5, as the code has it. For every rounding \<open>rnd\<close>: a record adds
  \<^verbatim>\<open>reads * read_length / gene_length\<close> to the entry of its pangene and leaves
  the other entries alone; processing the batches one after the other is one pass
  over their records in the same order; and the pangene ids of the result do not
  depend on the order of the batches. In exact arithmetic (\<open>no_rounding\<close>) the
  result does not depend on the order of the batches either, merging the partial
  maps of two batches by addition gives the map of a single pass, and merging is
  commutative and associative. Maps are compared as dicts, by \<open>map_of\<close>.
\<close>

theorem coverage_accumulation:
  "map_of (compute_pangenome_coverage rnd rl [r] m) (pangene_id r)
     = Some (np_add rnd (lookup0 m (pangene_id r))
         (np_divide rnd (np_times rnd (np_of_int rnd (reads r)) rl)
            (np_of_int rnd (gene_length r))))
   \<and> (k \<noteq> pangene_id r \<longrightarrow> map_of (compute_pangenome_coverage rnd rl [r] m) k = map_of m k)
   \<and> fold (compute_pangenome_coverage rnd rl) batches m
        = compute_pangenome_coverage rnd rl (concat batches) m
   \<and> (mset batches' = mset batches \<longrightarrow>
        fst ` set (fold (compute_pangenome_coverage rnd rl) batches' m)
          = fst ` set (fold (compute_pangenome_coverage rnd rl) batches m))
   \<and> (mset batches' = mset batches \<longrightarrow>
        map_of (fold (compute_pangenome_coverage no_rounding rl) batches' m)
          = map_of (fold (compute_pangenome_coverage no_rounding rl) batches m))
   \<and> map_of (merge_coverage no_rounding (compute_pangenome_coverage no_rounding rl b1 [])
                (compute_pangenome_coverage no_rounding rl b2 []))
        = map_of (compute_pangenome_coverage no_rounding rl (b1 @ b2) [])
   \<and> map_of (merge_coverage no_rounding (compute_pangenome_coverage no_rounding rl b1 [])
                (compute_pangenome_coverage no_rounding rl b2 []))
        = map_of (merge_coverage no_rounding (compute_pangenome_coverage no_rounding rl b2 [])
                (compute_pangenome_coverage no_rounding rl b1 []))
   \<and> map_of (merge_coverage no_rounding
                (merge_coverage no_rounding (compute_pangenome_coverage no_rounding rl b1 [])
                   (compute_pangenome_coverage no_rounding rl b2 []))
                (compute_pangenome_coverage no_rounding rl b3 []))
        = map_of (merge_coverage no_rounding (compute_pangenome_coverage no_rounding rl b1 [])
                (merge_coverage no_rounding (compute_pangenome_coverage no_rounding rl b2 [])
                   (compute_pangenome_coverage no_rounding rl b3 [])))"
proof (intro conjI impI)
  show "map_of (compute_pangenome_coverage rnd rl [r] m) (pangene_id r)
     = Some (np_add rnd (lookup0 m (pangene_id r))
         (np_divide rnd (np_times rnd (np_of_int rnd (reads r)) rl)
            (np_of_int rnd (gene_length r))))"
    by (simp add: compute_pangenome_coverage_def add_coverage_def update_conv' coverage_of_def)
next
  assume "k \<noteq> pangene_id r"
  then show "map_of (compute_pangenome_coverage rnd rl [r] m) k = map_of m k"
    by (simp add: compute_pangenome_coverage_def add_coverage_def update_conv')
next
  show "fold (compute_pangenome_coverage rnd rl) batches m
        = compute_pangenome_coverage rnd rl (concat batches) m"
    by (rule batches_single_pass)
next
  assume "mset batches' = mset batches"
  from mset_concat_permuted [OF this] have "set (concat batches') = set (concat batches)"
    by (rule mset_eq_setD)
  then show "fst ` set (fold (compute_pangenome_coverage rnd rl) batches' m)
          = fst ` set (fold (compute_pangenome_coverage rnd rl) batches m)"
    by (simp only: batches_single_pass compute_keys)
next
  assume "mset batches' = mset batches"
  from compute_permuted [OF mset_concat_permuted [OF this]]
  show "map_of (fold (compute_pangenome_coverage no_rounding rl) batches' m)
          = map_of (fold (compute_pangenome_coverage no_rounding rl) batches m)"
    by (simp only: batches_single_pass)
next
  show "map_of (merge_coverage no_rounding (compute_pangenome_coverage no_rounding rl b1 [])
                (compute_pangenome_coverage no_rounding rl b2 []))
        = map_of (compute_pangenome_coverage no_rounding rl (b1 @ b2) [])"
    by (rule merge_partial)
next
  show "map_of (merge_coverage no_rounding (compute_pangenome_coverage no_rounding rl b1 [])
                (compute_pangenome_coverage no_rounding rl b2 []))
        = map_of (merge_coverage no_rounding (compute_pangenome_coverage no_rounding rl b2 [])
                (compute_pangenome_coverage no_rounding rl b1 []))"
    by (rule merge_commute) (simp_all add: compute_distinct)
next
  show "map_of (merge_coverage no_rounding
                (merge_coverage no_rounding (compute_pangenome_coverage no_rounding rl b1 [])
                   (compute_pangenome_coverage no_rounding rl b2 []))
                (compute_pangenome_coverage no_rounding rl b3 []))
        = map_of (merge_coverage no_rounding (compute_pangenome_coverage no_rounding rl b1 [])
                (merge_coverage no_rounding (compute_pangenome_coverage no_rounding rl b2 [])
                   (compute_pangenome_coverage no_rounding rl b3 [])))"
    by (rule merge_assoc) (simp_all add: compute_distinct)
qed

lemma exact_forward:
  "fold (compute_pangenome_coverage no_rounding (Finite 100)) three_batches []
     = [(''p1'', Finite (3 / 5))]"
  by (simp add: three_batches_def compute_pangenome_coverage_def add_coverage_def
      coverage_of_def np_of_int_def np_times_def np_divide_def np_add_def example_bed_cov_def
      lookup0_Nil lookup0_Cons zero_npfloat_def no_rounding_def)

theorem coverage_accumulation_witness:
  "mset (rev three_batches) = mset three_batches
   \<and> fold (compute_pangenome_coverage no_rounding (Finite 100)) three_batches []
       = [(''p1'', Finite (3 / 5))]
   \<and> map_of (fold (compute_pangenome_coverage no_rounding (Finite 100)) (rev three_batches) [])
       = map_of [(''p1'', Finite (3 / 5))]
   \<and> fst ` set (fold (compute_pangenome_coverage round_double (Finite 100))
         (rev three_batches) []) = {''p1''}
   \<and> map_of (compute_pangenome_coverage no_rounding (Finite 100)
        [example_bed_cov ''p1'' 3 1000] [(''p2'', Finite 1)]) ''p2'' = Some (Finite 1)"
proof -
  have p: "mset (rev three_batches) = mset three_batches" by simp
  have k: "''p2'' \<noteq> pangene_id (example_bed_cov ''p1'' 3 1000)" by simp
  note keys = coverage_accumulation [where rnd = round_double and rl = "Finite 100"
      and batches' = "rev three_batches" and batches = three_batches and m = "[]",
      THEN conjunct2, THEN conjunct2, THEN conjunct2, THEN conjunct1, rule_format, OF p]
  note vals = coverage_accumulation [where rl = "Finite 100"
      and batches' = "rev three_batches" and batches = three_batches and m = "[]",
      THEN conjunct2, THEN conjunct2, THEN conjunct2, THEN conjunct2, THEN conjunct1,
      rule_format, OF p]
  note other = coverage_accumulation [where rnd = no_rounding and rl = "Finite 100"
      and m = "[(''p2'', Finite 1)]" and r = "example_bed_cov ''p1'' 3 1000" and k = "''p2''",
      THEN conjunct2, THEN conjunct1, rule_format, OF k]
  from keys have 1: "fst ` set (fold (compute_pangenome_coverage round_double (Finite 100))
         (rev three_batches) []) = {''p1''}"
    by (simp add: rounded_forward)
  from vals have 2: "map_of (fold (compute_pangenome_coverage no_rounding (Finite 100))
        (rev three_batches) []) = map_of [(''p1'', Finite (3 / 5))]"
    by (simp add: exact_forward)
  from other have 3: "map_of (compute_pangenome_coverage no_rounding (Finite 100)
        [example_bed_cov ''p1'' 3 1000] [(''p2'', Finite 1)]) ''p2'' = Some (Finite 1)"
    by simp
  from p exact_forward 1 2 3 show ?thesis by blast
qed

text \<open>
  With the rounding of the code's floats the claim fails as worded: three batches of
  coverage 0.1, 0.2 and 0.3 for one pangene accumulate to 0.6000000000000001 in
  this order and to 0.6 in the reverse order, and merging the partial map of the
  first batch with that of the other two gives 0.6, not the 0.6000000000000001 of
  the single pass.
\<close>

theorem coverage_order_counterexample:
  "mset (rev three_batches) = mset three_batches
   \<and> fold (compute_pangenome_coverage round_double (Finite 100)) three_batches []
       = [(''p1'', Finite (5404319552844596 / 2 ^ 53))]
   \<and> fold (compute_pangenome_coverage round_double (Finite 100)) (rev three_batches) []
       = [(''p1'', Finite (5404319552844595 / 2 ^ 53))]
   \<and> map_of (fold (compute_pangenome_coverage round_double (Finite 100)) (rev three_batches) [])
       \<noteq> map_of (fold (compute_pangenome_coverage round_double (Finite 100)) three_batches [])
   \<and> merge_coverage round_double
       (compute_pangenome_coverage round_double (Finite 100) (three_batches ! 0) [])
       (compute_pangenome_coverage round_double (Finite 100)
          (three_batches ! 1 @ three_batches ! 2) [])
       = [(''p1'', Finite (5404319552844595 / 2 ^ 53))]"
proof -
  have p: "mset (rev three_batches) = mset three_batches" by simp
  note f = rounded_forward [unfolded six_tenths_up_def]
  note b = rounded_backward [unfolded six_tenths_def]
  note m = rounded_merge [unfolded six_tenths_def]
  have "map_of [(''p1'', Finite six_tenths)] ''p1'' \<noteq> map_of [(''p1'', Finite six_tenths_up)] ''p1''"
    using six_tenths_differ by simp
  then have "map_of [(''p1'', Finite six_tenths)] \<noteq> map_of [(''p1'', Finite six_tenths_up)]"
    by metis
  then have n: "map_of (fold (compute_pangenome_coverage round_double (Finite 100))
        (rev three_batches) [])
       \<noteq> map_of (fold (compute_pangenome_coverage round_double (Finite 100)) three_batches [])"
    by (simp add: rounded_forward rounded_backward)
  from p f b n m show ?thesis by blast
qed

subsection \<open>Copy number\<close>

lemma write_rows:
  "write_pangene_coverage rnd m b =
     map (\<lambda>pangene. (pangene, lookup0 m pangene,
            if np_positive b then np_divide rnd (lookup0 m pangene) b else Finite 0))
       (sort (map fst m))"
  by (simp add: write_pangene_coverage_def Let_def)

text \<open>
  Claim C6. \<open>write_pangene_coverage\<close> writes one row for each pangene of the
  dict, sorted by pangene id; the row holds the pangene's coverage and, as copy
  number, the coverage divided by the baseline \<open>phyeco_cov\<close> when the baseline is
  greater than 0, and 0 otherwise. With a baseline of 0, or of \<^verbatim>\<open>nan\<close> (no marker
  was seen), every copy number is 0, not \<^verbatim>\<open>nan\<close>. Nothing in the function
  raises: the division is reached only behind the test, and the pangenes are the
  keys of the dict; accordingly the model has no error value.
\<close>

theorem copy_number_rule:
  "map fst (write_pangene_coverage rnd m b) = sort (map fst m)
   \<and> list_all (\<lambda>(pangene, cov, cn). cov = lookup0 m pangene
         \<and> cn = (if np_positive b then np_divide rnd cov b else Finite 0))
       (write_pangene_coverage rnd m b)
   \<and> list_all (\<lambda>(pangene, cov, cn). cn = Finite 0) (write_pangene_coverage rnd m (Finite 0))
   \<and> list_all (\<lambda>(pangene, cov, cn). cn = Finite 0) (write_pangene_coverage rnd m NaN)
   \<and> (\<not> np_positive b \<longrightarrow>
        list_all (\<lambda>(pangene, cov, cn). cn = Finite 0 \<and> cn \<noteq> NaN)
          (write_pangene_coverage rnd m b))"
  by (simp add: write_rows list_all_iff comp_def)

lemma example_sorted: "sort (map fst example_coverage) = [''p1'', ''p2'']"
  by (simp add: example_coverage_def less_eq_char_def less_char_def)

theorem copy_number_rule_witness:
  "write_pangene_coverage no_rounding example_coverage (Finite 2)
     = [(''p1'', Finite 2, Finite 1), (''p2'', Finite 4, Finite 2)]
   \<and> \<not> np_positive (Finite 0)
   \<and> write_pangene_coverage no_rounding example_coverage (Finite 0)
     = [(''p1'', Finite 2, Finite 0), (''p2'', Finite 4, Finite 0)]
   \<and> list_all (\<lambda>(pangene, cov, cn). cn = Finite 0 \<and> cn \<noteq> NaN)
       (write_pangene_coverage no_rounding example_coverage (Finite 0))"
proof -
  have z: "\<not> np_positive (Finite 0)" by simp
  have a: "write_pangene_coverage no_rounding example_coverage (Finite 2)
     = [(''p1'', Finite 2, Finite 1), (''p2'', Finite 4, Finite 2)]"
    by (simp add: write_rows example_sorted)
      (simp add: example_coverage_def lookup0_def np_divide_def no_rounding_def)
  have b: "write_pangene_coverage no_rounding example_coverage (Finite 0)
     = [(''p1'', Finite 2, Finite 0), (''p2'', Finite 4, Finite 0)]"
    by (simp add: write_rows example_sorted)
      (simp add: example_coverage_def lookup0_def)
  from copy_number_rule [where rnd = no_rounding and m = example_coverage and b = "Finite 0"] z
  have "list_all (\<lambda>(pangene, cov, cn). cn = Finite 0 \<and> cn \<noteq> NaN)
       (write_pangene_coverage no_rounding example_coverage (Finite 0))"
    by blast
  with z a b show ?thesis by blast
qed

subsection \<open>Read length\<close>

lemma sample_lengths_take:
  "index \<le> max_reads \<Longrightarrow>
   sample_lengths index s acc = acc @ map query_length (take (max_reads - index) s)"
proof (induction s arbitrary: index acc)
  case Nil
  then show ?case by simp
next
  case (Cons a s)
  show ?case
  proof (cases "index = max_reads")
    case True
    then show ?thesis by simp
  next
    case False
    with Cons.prems have lt: "index < max_reads" by simp
    then have "max_reads - index = Suc (max_reads - Suc index)" by simp
    with Cons.IH [of "Suc index" "acc @ [query_length a]"] lt False show ?thesis by simp
  qed
qed

lemma read_lengths_fold:
  "fold (\<lambda>aln_file read_lengths. sample_lengths 0 (fetch aln_file) read_lengths) files acc
     = acc @ concat (map (\<lambda>f. map query_length (take max_reads (fetch f))) files)"
  by (induction files arbitrary: acc) (simp_all add: sample_lengths_take)

lemma read_lengths_concat:
  "read_lengths_of files = concat (map (\<lambda>f. map query_length (take max_reads (fetch f))) files)"
  by (simp add: read_lengths_of_def read_lengths_fold)

lemma read_lengths_bound: "length (read_lengths_of files) \<le> max_reads * length files"
  unfolding read_lengths_concat
  by (induction files) (simp_all add: min_def)

text \<open>In binary64 the mean of a sample whose sum and size are below \<open>2 ^ 53\<close> is the
  double nearest to the arithmetic mean.\<close>

lemma np_mean_nearest_double:
  assumes "xs \<noteq> [] \<and> \<bar>sum_list xs\<bar> < 2 ^ 53 \<and> int (length xs) < 2 ^ 53"
  shows "np_mean round_double xs
    = Finite (round_double (of_int (sum_list xs) / of_int (int (length xs))))"
proof -
  from assms have s: "round_double (of_int (sum_list xs)) = of_int (sum_list xs)"
    by (intro round_double_int) simp
  from assms have n: "round_double (of_int (int (length xs))) = of_int (int (length xs))"
    by (intro round_double_int) simp
  from assms have "(of_int (int (length xs)) :: rat) \<noteq> 0" by simp
  with assms show ?thesis
    by (simp only: np_mean_def np_of_int_def np_divide_def s n exact_divide.simps np_round.simps
        if_False if_True not_False_eq_True)
qed

text \<open>
  Claim C9, as the code has it. \<open>get_read_length\<close> takes the query lengths of the
  first 50,000 records of each BAM file of the directory, the counter starting again
  with each file, and returns their mean as \<^verbatim>\<open>np.mean\<close> computes it, \<^verbatim>\<open>nan\<close> if
  there is none: the sum and the number of the lengths as floats, and their quotient
  rounded, for every rounding \<open>rnd\<close>. In binary64, while the sum and the number of
  the lengths are below \<open>2 ^ 53\<close>, this is the double nearest to the arithmetic mean.
  The sample has at most 50,000 records for each file; files of at most 50,000 records
  are sampled whole.
\<close>

theorem read_length_sample:
  "read_lengths_of files = concat (map (\<lambda>f. map query_length (take 50000 (fetch f))) files)
   \<and> get_read_length rnd files =
       (if read_lengths_of files = [] then NaN
        else np_divide rnd (Finite (rnd (of_int (sum_list (read_lengths_of files)))))
               (Finite (rnd (of_int (int (length (read_lengths_of files)))))))
   \<and> (read_lengths_of files \<noteq> [] \<and> \<bar>sum_list (read_lengths_of files)\<bar> < 2 ^ 53
        \<and> int (length (read_lengths_of files)) < 2 ^ 53 \<longrightarrow>
        get_read_length round_double files =
          Finite (round_double (of_int (sum_list (read_lengths_of files))
                    / of_int (int (length (read_lengths_of files))))))
   \<and> length (read_lengths_of files) \<le> 50000 * length files
   \<and> (list_all (\<lambda>f. length (fetch f) \<le> 50000) files \<longrightarrow>
        read_lengths_of files = concat (map (\<lambda>f. map query_length (fetch f)) files))"
proof (intro conjI impI)
  show "read_lengths_of files = concat (map (\<lambda>f. map query_length (take 50000 (fetch f))) files)"
    using read_lengths_concat [of files] by (simp add: max_reads_def)
  show "get_read_length rnd files =
       (if read_lengths_of files = [] then NaN
        else np_divide rnd (Finite (rnd (of_int (sum_list (read_lengths_of files)))))
               (Finite (rnd (of_int (int (length (read_lengths_of files)))))))"
    by (simp add: get_read_length_def np_mean_def np_of_int_def)
  show "length (read_lengths_of files) \<le> 50000 * length files"
    using read_lengths_bound [of files] by (simp add: max_reads_def)
next
  assume "read_lengths_of files \<noteq> [] \<and> \<bar>sum_list (read_lengths_of files)\<bar> < 2 ^ 53
        \<and> int (length (read_lengths_of files)) < 2 ^ 53"
  then show "get_read_length round_double files =
          Finite (round_double (of_int (sum_list (read_lengths_of files))
                    / of_int (int (length (read_lengths_of files)))))"
    unfolding get_read_length_def by (rule np_mean_nearest_double)
next
  assume "list_all (\<lambda>f. length (fetch f) \<le> 50000) files"
  then have "map (\<lambda>f. map query_length (take max_reads (fetch f))) files
      = map (\<lambda>f. map query_length (fetch f)) files"
    by (simp add: list_all_iff max_reads_def)
  then show "read_lengths_of files = concat (map (\<lambda>f. map query_length (fetch f)) files)"
    by (simp only: read_lengths_concat)
qed

lemma uniform_lengths:
  "map query_length (take k (fetch (uniform_file n len))) = replicate (min k n) len"
  by (simp add: uniform_file_def)

theorem read_length_sample_witness:
  "list_all (\<lambda>f. length (fetch f) \<le> 50000) [uniform_file 2 100, uniform_file 1 101]
   \<and> read_lengths_of [uniform_file 2 100, uniform_file 1 101] = [100, 100, 101]
   \<and> get_read_length round_double [uniform_file 2 100, uniform_file 1 101]
       = Finite (7060330665825621 / 2 ^ 46)"
proof -
  let ?files = "[uniform_file 2 100, uniform_file 1 101]"
  have h: "list_all (\<lambda>f. length (fetch f) \<le> 50000) ?files"
    by (simp add: uniform_file_def)
  have r: "read_lengths_of ?files = [100, 100, 101]"
    by (simp add: read_lengths_concat uniform_lengths max_reads_def numeral_2_eq_2)
  from read_length_sample [of ?files round_double]
  have g: "read_lengths_of ?files \<noteq> [] \<and> \<bar>sum_list (read_lengths_of ?files)\<bar> < 2 ^ 53
        \<and> int (length (read_lengths_of ?files)) < 2 ^ 53 \<longrightarrow>
        get_read_length round_double ?files =
          Finite (round_double (of_int (sum_list (read_lengths_of ?files))
                    / of_int (int (length (read_lengths_of ?files)))))"
    by blast
  from g [unfolded r]
  have "get_read_length round_double ?files = Finite (7060330665825621 / 2 ^ 46)"
    by (simp add: rd_301_3)
  with h r show ?thesis by blast
qed

text \<open>
  The cap is not a cap on the whole sample: of two files of 50,000 records each, one
  of reads of length 100 and one of reads of length 50, all 100,000 records are
  sampled and the mean is 75, where the first 50,000 records alone have mean 100.
\<close>

theorem read_length_cap_counterexample:
  "length (read_lengths_of [uniform_file 50000 100, uniform_file 50000 50]) = 100000
   \<and> \<not> length (read_lengths_of [uniform_file 50000 100, uniform_file 50000 50]) \<le> 50000
   \<and> get_read_length round_double [uniform_file 50000 100, uniform_file 50000 50] = Finite 75
   \<and> get_read_length round_double [uniform_file 50000 100] = Finite 100"
  by (simp add: get_read_length_def np_mean_def np_of_int_def np_divide_def
      read_lengths_concat uniform_lengths max_reads_def sum_list_replicate round_double_numeral)

subsection \<open>Consensus alleles\<close>








end
